theory Spec2Isabelle
  imports Main "HOL-Library.AList"
begin

section \<open>JSON values, Python dictionaries and string methods\<close>

text \<open>
  A Python \<^verbatim>\<open>str\<close> is a list of Unicode code points. The literals of the source are
  ASCII and are written \<open>ascii ''...''\<close>. Address records travel through the services
  as Python dictionaries \<^verbatim>\<open>dict[str, Any]\<close> and are stored in JSONB columns. A
  dictionary is an association list in insertion order; \<^verbatim>\<open>d[k] = v\<close> is \<open>AList.update\<close>
  (replace in place, or append a new key) and \<^verbatim>\<open>k in d\<close> is \<open>map_of d k \<noteq> None\<close>. The
  code only compares keys, batch statuses and job names with its own literals and
  never transforms them, so they stay HOL strings. JSON numbers are integers here (no
  field of an address is a float).
\<close>

type_synonym str = "nat list"

definition ascii :: "string \<Rightarrow> str" where
  "ascii s = map of_char s"

datatype jvalue =
    JNull
  | JBool bool
  | JInt int
  | JStr str
  | JList "jvalue list"
  | JObj "(string \<times> jvalue) list"

type_synonym jdict = "(string \<times> jvalue) list"

text \<open>
  \<^verbatim>\<open>str.strip()\<close> removes from both ends the code points for which CPython's
  \<^verbatim>\<open>str.isspace\<close> test holds: the ASCII controls and the blank, NEL, the no-break
  space and the Unicode space separators and line and paragraph separators.
\<close>

definition isspace :: "nat \<Rightarrow> bool" where
  "isspace c =
     (c \<in> {9, 10, 11, 12, 13, 28, 29, 30, 31, 32, 133, 160, 5760,
             8192, 8193, 8194, 8195, 8196, 8197, 8198, 8199, 8200, 8201, 8202,
             8232, 8233, 8239, 8287, 12288})"

definition strip :: "str \<Rightarrow> str" where
  "strip s = rev (dropWhile isspace (rev (dropWhile isspace s)))"

text \<open>
  \<^verbatim>\<open>str.upper()\<close> and \<^verbatim>\<open>str.lower()\<close> replace each code point by its full case
  mapping, which has one to three code points. On ASCII the mapping is written out.
  Beyond ASCII it is the Unicode character database compiled into the interpreter,
  which is not part of this repository: the two mappings, and the test CPython uses
  to lower a capital sigma (U+03A3) to a final sigma (U+03C2) or a small sigma
  (U+03C3) according to the code points before and after it, are the parameter \<open>U\<close>
  of every function that changes case. \<open>lower_from\<close> carries the code points
  already passed, nearest first, since the sigma test looks backwards.
\<close>

record case_tables =
  to_upper_full :: "nat \<Rightarrow> str"
  to_lower_full :: "nat \<Rightarrow> str"
  final_sigma :: "str \<Rightarrow> str \<Rightarrow> bool"

definition upper_char :: "case_tables \<Rightarrow> nat \<Rightarrow> str" where
  "upper_char U c =
     (if c < 128 then [if 97 \<le> c \<and> c \<le> 122 then c - 32 else c]
      else to_upper_full U c)"

definition upper :: "case_tables \<Rightarrow> str \<Rightarrow> str" where
  "upper U s = concat (map (upper_char U) s)"

definition lower_char :: "case_tables \<Rightarrow> str \<Rightarrow> nat \<Rightarrow> str \<Rightarrow> str" where
  "lower_char U seen c rest =
     (if c = 931 then [if final_sigma U seen rest then 962 else 963]
      else if c < 128 then [if 65 \<le> c \<and> c \<le> 90 then c + 32 else c]
      else to_lower_full U c)"

fun lower_from :: "case_tables \<Rightarrow> str \<Rightarrow> str \<Rightarrow> str" where
  "lower_from U seen [] = []"
| "lower_from U seen (c # rest) = lower_char U seen c rest @ lower_from U (c # seen) rest"

definition lower :: "case_tables \<Rightarrow> str \<Rightarrow> str" where
  "lower U s = lower_from U [] s"

definition ARI :: string where
  "ARI = ''address_residential_indicator''"

definition indicator_values :: "str set" where
  "indicator_values = {ascii ''unknown'', ascii ''yes'', ascii ''no''}"

section \<open>The normalization functions\<close>

text \<open>
  \<^verbatim>\<open>AddressValidationService._normalize\<close> (services/address_validation.py, lines 18-47).
  \<open>normalize_value\<close> is the body of the loop for one \<open>(key, value)\<close> pair: the value
  written to \<^verbatim>\<open>normalized[key]\<close>.
\<close>

fun normalize_value :: "case_tables \<Rightarrow> string \<Rightarrow> jvalue \<Rightarrow> jvalue" where
  "normalize_value U key (JStr value_str) =
     (let v = strip value_str in
      if key = ARI then
        (let v = lower U v in
         let v = (if v \<notin> indicator_values then ascii ''unknown'' else v) in JStr v)
      else if key = ''country_code'' then JStr (upper U v)
      else if key = ''email'' then JStr (lower U v)
      else JStr (upper U v))"
| "normalize_value U key v = v"

definition normalize :: "case_tables \<Rightarrow> jdict \<Rightarrow> jdict" where
  "normalize U addr =
     (let normalized = fold (\<lambda>(key, v) acc. AList.update key (normalize_value U key v) acc) addr [] in
      if map_of normalized ARI = None
      then AList.update ARI (JStr (ascii ''unknown'')) normalized
      else normalized)"

text \<open>
  \<^verbatim>\<open>AddressRecognitionService._recognize_one\<close> (services/address_recognition.py, lines
  12-33). The indicator is stripped twice, as in the source; the final test also
  replaces a null indicator.
\<close>

fun recognize_value :: "case_tables \<Rightarrow> string \<Rightarrow> jvalue \<Rightarrow> jvalue" where
  "recognize_value U k (JStr v) =
     (let vv = strip v in
      if k = ''country_code'' then JStr (upper U vv)
      else if k = ''email'' then JStr (lower U vv)
      else if k = ARI then
        (let x = lower U (strip vv) in JStr (if x \<in> indicator_values then x else ascii ''unknown''))
      else JStr (upper U vv))"
| "recognize_value U k v = v"

definition recognize_one :: "case_tables \<Rightarrow> jdict \<Rightarrow> jdict" where
  "recognize_one U addr =
     (let out = fold (\<lambda>(k, v) acc. AList.update k (recognize_value U k v) acc) addr [] in
      if map_of out ARI = None \<or> map_of out ARI = Some JNull
      then AList.update ARI (JStr (ascii ''unknown'')) out
      else out)"

section \<open>Schemas (schemas/addresses.py)\<close>

text \<open>
  A pydantic model is a record; \<^verbatim>\<open>model_validate\<close> is a function from a JSON value to
  the record or a \<open>ValidationError\<close>, checking what the field declarations state:
  required fields, \<^verbatim>\<open>str | None\<close>, \<^verbatim>\<open>str | int | None\<close>, \<^verbatim>\<open>min_length\<close> and
  \<^verbatim>\<open>max_length\<close>, the literal type of the indicator and its \<^verbatim>\<open>mode="before"\<close> validator.
  Unknown keys are ignored, a missing optional key takes its default.
\<close>

datatype error = ValidationError | RuntimeError string | IntegrityError | ValueError

definition and_then :: "error + 'a \<Rightarrow> ('a \<Rightarrow> error + 'b) \<Rightarrow> error + 'b" where
  "and_then r f = (case r of Inl e \<Rightarrow> Inl e | Inr x \<Rightarrow> f x)"

fun validate_each :: "('a \<Rightarrow> error + 'b) \<Rightarrow> 'a list \<Rightarrow> error + 'b list" where
  "validate_each f [] = Inr []"
| "validate_each f (x # xs) =
     (case f x of
        Inl e \<Rightarrow> Inl e
      | Inr y \<Rightarrow> (case validate_each f xs of Inl e \<Rightarrow> Inl e | Inr ys \<Rightarrow> Inr (y # ys)))"

datatype ResidentialIndicator = Unknown | Yes | No

fun indicator_str :: "ResidentialIndicator \<Rightarrow> str" where
  "indicator_str Unknown = ascii ''unknown''"
| "indicator_str Yes = ascii ''yes''"
| "indicator_str No = ascii ''no''"

definition indicator_literal :: "jvalue \<Rightarrow> error + ResidentialIndicator" where
  "indicator_literal v =
     (if v = JStr (ascii ''unknown'') then Inr Unknown
      else if v = JStr (ascii ''yes'') then Inr Yes
      else if v = JStr (ascii ''no'') then Inr No
      else Inl ValidationError)"

datatype postal = PostalStr str | PostalInt int

fun postal_json :: "postal option \<Rightarrow> jvalue" where
  "postal_json None = JNull"
| "postal_json (Some (PostalStr s)) = JStr s"
| "postal_json (Some (PostalInt i)) = JInt i"

fun str_json :: "str option \<Rightarrow> jvalue" where
  "str_json None = JNull"
| "str_json (Some s) = JStr s"

fun optional_str :: "jvalue option \<Rightarrow> error + str option" where
  "optional_str None = Inr None"
| "optional_str (Some JNull) = Inr None"
| "optional_str (Some (JStr s)) = Inr (Some s)"
| "optional_str (Some v) = Inl ValidationError"

fun required_str :: "nat \<Rightarrow> jvalue option \<Rightarrow> error + str" where
  "required_str min_length (Some (JStr s)) =
     (if min_length \<le> length s then Inr s else Inl ValidationError)"
| "required_str min_length v = Inl ValidationError"

fun optional_postal :: "jvalue option \<Rightarrow> error + postal option" where
  "optional_postal None = Inr None"
| "optional_postal (Some JNull) = Inr None"
| "optional_postal (Some (JStr s)) = Inr (Some (PostalStr s))"
| "optional_postal (Some (JInt i)) = Inr (Some (PostalInt i))"
| "optional_postal (Some (JBool b)) = Inr (Some (PostalInt (if b then 1 else 0)))"
| "optional_postal (Some v) = Inl ValidationError"

record AddressIn =
  name :: "str option"
  phone :: "str option"
  email :: "str option"
  company_name :: "str option"
  address_line1 :: str
  address_line2 :: "str option"
  address_line3 :: "str option"
  city_locality :: str
  state_province :: str
  postal_code :: "postal option"
  country_code :: str
  address_residential_indicator :: ResidentialIndicator

text \<open>The \<^verbatim>\<open>mode="before"\<close> field validator of \<^verbatim>\<open>AddressIn\<close> (lines 30-39).\<close>

fun normalize_residential_indicator :: "case_tables \<Rightarrow> jvalue \<Rightarrow> jvalue" where
  "normalize_residential_indicator U JNull = JStr (ascii ''unknown'')"
| "normalize_residential_indicator U (JStr v) =
     (let vv = lower U (strip v) in
      if vv \<in> indicator_values then JStr vv else JStr (ascii ''unknown''))"
| "normalize_residential_indicator U v = JStr (ascii ''unknown'')"

definition indicator_field :: "case_tables \<Rightarrow> jvalue option \<Rightarrow> error + ResidentialIndicator" where
  "indicator_field U v =
     (case v of
        None \<Rightarrow> Inr Unknown
      | Some x \<Rightarrow> indicator_literal (normalize_residential_indicator U x))"

definition country_code_field :: "jvalue option \<Rightarrow> error + str" where
  "country_code_field v =
     and_then (required_str 2 v) (\<lambda>s. if length s \<le> 2 then Inr s else Inl ValidationError)"

fun AddressIn_model_validate :: "case_tables \<Rightarrow> jvalue \<Rightarrow> error + AddressIn" where
  "AddressIn_model_validate U (JObj d) =
     and_then (optional_str (map_of d ''name'')) (\<lambda>f1.
     and_then (optional_str (map_of d ''phone'')) (\<lambda>f2.
     and_then (optional_str (map_of d ''email'')) (\<lambda>f3.
     and_then (optional_str (map_of d ''company_name'')) (\<lambda>f4.
     and_then (required_str 1 (map_of d ''address_line1'')) (\<lambda>f5.
     and_then (optional_str (map_of d ''address_line2'')) (\<lambda>f6.
     and_then (optional_str (map_of d ''address_line3'')) (\<lambda>f7.
     and_then (required_str 1 (map_of d ''city_locality'')) (\<lambda>f8.
     and_then (required_str 1 (map_of d ''state_province'')) (\<lambda>f9.
     and_then (optional_postal (map_of d ''postal_code'')) (\<lambda>f10.
     and_then (country_code_field (map_of d ''country_code'')) (\<lambda>f11.
     and_then (indicator_field U (map_of d ARI)) (\<lambda>f12.
       Inr \<lparr>name = f1, phone = f2, email = f3, company_name = f4, address_line1 = f5,
            address_line2 = f6, address_line3 = f7, city_locality = f8,
            state_province = f9, postal_code = f10, country_code = f11,
            address_residential_indicator = f12\<rparr>))))))))))))"
| "AddressIn_model_validate U v = Inl ValidationError"

text \<open>\<^verbatim>\<open>class AddressOut(AddressIn): pass\<close>\<close>

definition AddressOut_model_validate :: "case_tables \<Rightarrow> jvalue \<Rightarrow> error + AddressIn" where
  "AddressOut_model_validate U = AddressIn_model_validate U"

definition model_dump :: "AddressIn \<Rightarrow> jdict" where
  "model_dump a =
     [(''name'', str_json (name a)),
      (''phone'', str_json (phone a)),
      (''email'', str_json (email a)),
      (''company_name'', str_json (company_name a)),
      (''address_line1'', JStr (address_line1 a)),
      (''address_line2'', str_json (address_line2 a)),
      (''address_line3'', str_json (address_line3 a)),
      (''city_locality'', JStr (city_locality a)),
      (''state_province'', JStr (state_province a)),
      (''postal_code'', postal_json (postal_code a)),
      (''country_code'', JStr (country_code a)),
      (ARI, JStr (indicator_str (address_residential_indicator a)))]"

text \<open>
  The constraints an \<^verbatim>\<open>AddressIn\<close> instance satisfies once pydantic has built it:
  what \<open>AddressIn_model_validate\<close> checks.
\<close>

definition AddressIn_valid :: "AddressIn \<Rightarrow> bool" where
  "AddressIn_valid a =
     (1 \<le> length (address_line1 a) \<and> 1 \<le> length (city_locality a) \<and>
      1 \<le> length (state_province a) \<and> length (country_code a) = 2)"

record ValidationMessage =
  code :: str
  message :: str
  level :: str

definition message_dump :: "ValidationMessage \<Rightarrow> jdict" where
  "message_dump m =
     [(''code'', JStr (code m)), (''message'', JStr (message m)), (''level'', JStr (level m))]"

record AddressValidationResultOut =
  result_status :: string
  result_original_address :: AddressIn
  result_matched_address :: AddressIn
  result_messages :: "ValidationMessage list"

text \<open>
  \<^verbatim>\<open>AddressRecognizeKnownValues\<close> and \<^verbatim>\<open>AddressRecognizeIn\<close>. Every field of the known
  values is optional; the indicator is the literal type or null and has no validator.
\<close>

record AddressRecognizeKnownValues =
  kv_name :: "str option"
  kv_address_line1 :: "str option"
  kv_address_line2 :: "str option"
  kv_address_line3 :: "str option"
  kv_city_locality :: "str option"
  kv_state_province :: "str option"
  kv_postal_code :: "postal option"
  kv_country_code :: "str option"
  kv_address_residential_indicator :: "ResidentialIndicator option"

fun optional_indicator :: "jvalue option \<Rightarrow> error + ResidentialIndicator option" where
  "optional_indicator None = Inr None"
| "optional_indicator (Some JNull) = Inr None"
| "optional_indicator (Some v) = and_then (indicator_literal v) (\<lambda>i. Inr (Some i))"

fun KnownValues_model_validate :: "jvalue \<Rightarrow> error + AddressRecognizeKnownValues" where
  "KnownValues_model_validate (JObj d) =
     and_then (optional_str (map_of d ''name'')) (\<lambda>f1.
     and_then (optional_str (map_of d ''address_line1'')) (\<lambda>f2.
     and_then (optional_str (map_of d ''address_line2'')) (\<lambda>f3.
     and_then (optional_str (map_of d ''address_line3'')) (\<lambda>f4.
     and_then (optional_str (map_of d ''city_locality'')) (\<lambda>f5.
     and_then (optional_str (map_of d ''state_province'')) (\<lambda>f6.
     and_then (optional_postal (map_of d ''postal_code'')) (\<lambda>f7.
     and_then (optional_str (map_of d ''country_code'')) (\<lambda>f8.
     and_then (optional_indicator (map_of d ARI)) (\<lambda>f9.
       Inr \<lparr>kv_name = f1, kv_address_line1 = f2, kv_address_line2 = f3,
            kv_address_line3 = f4, kv_city_locality = f5, kv_state_province = f6,
            kv_postal_code = f7, kv_country_code = f8,
            kv_address_residential_indicator = f9\<rparr>)))))))))"
| "KnownValues_model_validate v = Inl ValidationError"

definition KnownValues_model_dump :: "AddressRecognizeKnownValues \<Rightarrow> jdict" where
  "KnownValues_model_dump a =
     [(''name'', str_json (kv_name a)),
      (''address_line1'', str_json (kv_address_line1 a)),
      (''address_line2'', str_json (kv_address_line2 a)),
      (''address_line3'', str_json (kv_address_line3 a)),
      (''city_locality'', str_json (kv_city_locality a)),
      (''state_province'', str_json (kv_state_province a)),
      (''postal_code'', postal_json (kv_postal_code a)),
      (''country_code'', str_json (kv_country_code a)),
      (ARI, (case kv_address_residential_indicator a of
               None \<Rightarrow> JNull | Some i \<Rightarrow> JStr (indicator_str i)))]"

record AddressRecognizeIn =
  rec_text :: str
  address :: "AddressRecognizeKnownValues option"

fun optional_known_values :: "jvalue option \<Rightarrow> error + AddressRecognizeKnownValues option" where
  "optional_known_values None = Inr None"
| "optional_known_values (Some JNull) = Inr None"
| "optional_known_values (Some v) = and_then (KnownValues_model_validate v) (\<lambda>a. Inr (Some a))"

fun AddressRecognizeIn_model_validate :: "jvalue \<Rightarrow> error + AddressRecognizeIn" where
  "AddressRecognizeIn_model_validate (JObj d) =
     and_then (required_str 1 (map_of d ''text'')) (\<lambda>t.
     and_then (optional_known_values (map_of d ''address'')) (\<lambda>a.
       Inr \<lparr>rec_text = t, address = a\<rparr>))"
| "AddressRecognizeIn_model_validate v = Inl ValidationError"

definition AddressRecognizeIn_model_dump :: "AddressRecognizeIn \<Rightarrow> jdict" where
  "AddressRecognizeIn_model_dump r =
     [(''text'', JStr (rec_text r)),
      (''address'', (case address r of
                       None \<Rightarrow> JNull | Some a \<Rightarrow> JObj (KnownValues_model_dump a)))]"

section \<open>Persistence: batches, items, sessions and units of work\<close>

text \<open>
  The batch tables (models/address_validation.py, models/address_recognition.py) have
  the same columns; a table of batches is a map from the primary key to the row. The
  status column is a free string. \<^verbatim>\<open>request_payload\<close> is nullable and holds a JSON
  array of records. An item table is the list of its rows in insertion order; item
  keys and the \<^verbatim>\<open>created_at\<close> columns play no part in the operations below and are
  left out.

  A session holds the persisted state, which is what every other reader of the
  database sees, the state inside the open transaction, and the list of the states it
  has committed, oldest first. \<^verbatim>\<open>session.commit()\<close> persists the working state;
  \<^verbatim>\<open>async with session.begin()\<close> commits when its body ends or returns and rolls back
  when the body raises. The row lock taken by \<^verbatim>\<open>with_for_update()\<close> has no effect on a
  single caller and does not appear.
\<close>

type_synonym uuid = nat

record Batch =
  status :: string
  request_payload :: "jvalue list option"

record AddressValidationItem =
  batch_id :: uuid
  item_status :: string
  original_address :: jdict
  matched_address :: jdict
  messages :: "jdict list"

record AddressRecognitionItem =
  recognition_batch_id :: uuid
  recognition_status :: string
  recognized :: jdict

record 'item database =
  batches :: "uuid \<Rightarrow> Batch option"
  items :: "'item list"

record 'item session =
  persisted :: "'item database"
  working :: "'item database"
  commits :: "'item database list"

definition async_session_factory :: "'item database \<Rightarrow> 'item session" where
  "async_session_factory d = \<lparr>persisted = d, working = d, commits = []\<rparr>"

definition commit :: "'item session \<Rightarrow> 'item session" where
  "commit s = s\<lparr>persisted := working s, commits := commits s @ [working s]\<rparr>"

definition rollback :: "'item session \<Rightarrow> 'item session" where
  "rollback s = s\<lparr>working := persisted s\<rparr>"

definition session_begin ::
  "('item database \<Rightarrow> error + 'a \<times> 'item database) \<Rightarrow> 'item session
     \<Rightarrow> (error + 'a) \<times> 'item session" where
  "session_begin body s =
     (case body (working s) of
        Inl e \<Rightarrow> (Inl e, rollback s)
      | Inr (r, d) \<Rightarrow> (Inr r, commit (s\<lparr>working := d\<rparr>)))"

definition set_status :: "uuid \<Rightarrow> string \<Rightarrow> 'item database \<Rightarrow> 'item database" where
  "set_status bid st d =
     (case batches d bid of
        None \<Rightarrow> d
      | Some batch \<Rightarrow> d\<lparr>batches := (batches d)(bid \<mapsto> batch\<lparr>status := st\<rparr>)\<rparr>)"

definition add_item :: "'item \<Rightarrow> 'item database \<Rightarrow> 'item database" where
  "add_item i d = d\<lparr>items := items d @ [i]\<rparr>"

definition payload_of :: "Batch \<Rightarrow> jvalue list" where
  "payload_of batch = (case request_payload batch of None \<Rightarrow> [] | Some p \<Rightarrow> p)"

section \<open>The validation service (services/address_validation.py)\<close>

type_synonym vdatabase = "AddressValidationItem database"
type_synonym vsession = "AddressValidationItem session"

definition delete_items :: "uuid \<Rightarrow> vdatabase \<Rightarrow> vdatabase" where
  "delete_items bid d = d\<lparr>items := filter (\<lambda>i. batch_id i \<noteq> bid) (items d)\<rparr>"

definition items_of :: "vdatabase \<Rightarrow> uuid \<Rightarrow> AddressValidationItem list" where
  "items_of d bid = filter (\<lambda>i. batch_id i = bid) (items d)"

fun postal_falsy :: "postal option \<Rightarrow> bool" where
  "postal_falsy None = True"
| "postal_falsy (Some (PostalStr s)) = (s = [])"
| "postal_falsy (Some (PostalInt i)) = (i = 0)"

definition status_and_messages ::
  "case_tables \<Rightarrow> AddressIn \<Rightarrow> string \<times> ValidationMessage list" where
  "status_and_messages U addr =
     (let msgs =
        (if upper U (country_code addr) = ascii ''US'' \<and> postal_falsy (postal_code addr)
         then [\<lparr>code = ascii ''missing_postal_code'',
                message = ascii ''postal_code is recommended for US'',
                level = ascii ''warning''\<rparr>]
         else [])
      in (''verified'', msgs))"

definition validation_item :: "case_tables \<Rightarrow> uuid \<Rightarrow> AddressIn \<Rightarrow> AddressValidationItem" where
  "validation_item U bid addr =
     (let original_dict = model_dump addr;
          matched_dict = normalize U original_dict;
          (st, msgs) = status_and_messages U addr
      in \<lparr>batch_id = bid, item_status = st, original_address = original_dict,
           matched_address = matched_dict, messages = map message_dump msgs\<rparr>)"

text \<open>Lines 103-111 of \<^verbatim>\<open>validate_and_store U\<close>: the dictionary echoed as the original.\<close>

definition original_for_out :: "case_tables \<Rightarrow> jdict \<Rightarrow> jdict" where
  "original_for_out U original_dict =
     (case map_of original_dict ARI of
        Some (JStr ari) \<Rightarrow>
          (let v = lower U (strip ari) in
           AList.update ARI (JStr (if v \<in> indicator_values then v else ascii ''unknown''))
             original_dict)
      | Some JNull \<Rightarrow> AList.update ARI (JStr (ascii ''unknown'')) original_dict
      | None \<Rightarrow> AList.update ARI (JStr (ascii ''unknown'')) original_dict
      | Some v \<Rightarrow> original_dict)"

text \<open>
  The loop of \<^verbatim>\<open>validate_and_store\<close> (lines 86-120): each address adds its item to the
  session, then builds the result record, where either \<^verbatim>\<open>AddressOut.model_validate\<close>
  may raise.
\<close>

fun store_addresses ::
  "case_tables \<Rightarrow> uuid \<Rightarrow> AddressIn list \<Rightarrow> vdatabase \<Rightarrow> AddressValidationResultOut list
     \<Rightarrow> error + vdatabase \<times> AddressValidationResultOut list" where
  "store_addresses U bid [] d results = Inr (d, results)"
| "store_addresses U bid (addr # rest) d results =
     (let original_dict = model_dump addr;
          matched_dict = normalize U original_dict;
          (st, msgs) = status_and_messages U addr;
          d' = add_item (validation_item U bid addr) d
      in and_then (AddressOut_model_validate U (JObj (original_for_out U original_dict))) (\<lambda>orig.
         and_then (AddressOut_model_validate U (JObj matched_dict)) (\<lambda>matched.
           store_addresses U bid rest d'
             (results @ [\<lparr>result_status = st, result_original_address = orig,
                          result_matched_address = matched, result_messages = msgs\<rparr>]))))"

text \<open>
  \<^verbatim>\<open>validate_and_store\<close> (lines 73-122). The key of the new batch is drawn by
  \<^verbatim>\<open>uuid.uuid4\<close>; here it is the argument \<open>new_id\<close>, and the flush fails on a key that
  is already taken.
\<close>

definition validate_and_store ::
  "case_tables \<Rightarrow> uuid \<Rightarrow> vsession \<Rightarrow> AddressIn list
     \<Rightarrow> (error + uuid \<times> AddressValidationResultOut list) \<times> vsession" where
  "validate_and_store U new_id s addresses =
     session_begin (\<lambda>d.
       let payload = map (\<lambda>a. JObj (model_dump a)) addresses in
       if batches d new_id \<noteq> None then Inl IntegrityError
       else
         and_then
           (store_addresses U new_id addresses
              (d\<lparr>batches := (batches d)(new_id \<mapsto>
                   \<lparr>status = ''completed'', request_payload = Some payload\<rparr>)\<rparr>) [])
           (\<lambda>(d', results). Inr ((new_id, results), d'))) s"

text \<open>\<^verbatim>\<open>process_existing_batch U\<close> (lines 124-174).\<close>

definition process_existing_batch :: "case_tables \<Rightarrow> vsession \<Rightarrow> uuid \<Rightarrow> (error + unit) \<times> vsession" where
  "process_existing_batch U s bid =
     session_begin (\<lambda>d.
       case batches d bid of
         None \<Rightarrow> Inr ((), d)
       | Some batch \<Rightarrow>
           let existing_item_id = find (\<lambda>i. batch_id i = bid) (items d) in
           if status batch = ''completed'' \<and> existing_item_id \<noteq> None then Inr ((), d)
           else
             let payload = payload_of batch in
             if payload = [] then Inr ((), set_status bid ''failed'' d)
             else
               let d1 = set_status bid ''processing'' d;
                   d2 = delete_items bid d1
               in and_then (validate_each (AddressIn_model_validate U) payload) (\<lambda>addresses.
                    let d3 = fold (\<lambda>addr. add_item (validation_item U bid addr)) addresses d2
                    in Inr ((), set_status bid ''completed'' d3))) s"

text \<open>\<^verbatim>\<open>requeue_batch\<close> (lines 270-295).\<close>

definition requeue_batch :: "vsession \<Rightarrow> uuid \<Rightarrow> (error + bool) \<times> vsession" where
  "requeue_batch s bid =
     session_begin (\<lambda>d.
       case batches d bid of
         None \<Rightarrow> Inr (False, d)
       | Some batch \<Rightarrow>
           if status batch = ''processing'' then Inl (RuntimeError ''processing'')
           else if payload_of batch = [] then Inr (False, set_status bid ''failed'' d)
           else Inr (True, delete_items bid (set_status bid ''queued'' d))) s"

section \<open>The recognition service (services/address_recognition.py)\<close>

type_synonym rdatabase = "AddressRecognitionItem database"
type_synonym rsession = "AddressRecognitionItem session"

definition delete_recognition_items :: "uuid \<Rightarrow> rdatabase \<Rightarrow> rdatabase" where
  "delete_recognition_items bid d =
     d\<lparr>items := filter (\<lambda>i. recognition_batch_id i \<noteq> bid) (items d)\<rparr>"

definition recognition_items_of :: "rdatabase \<Rightarrow> uuid \<Rightarrow> AddressRecognitionItem list" where
  "recognition_items_of d bid = filter (\<lambda>i. recognition_batch_id i = bid) (items d)"

definition recognition_item :: "case_tables \<Rightarrow> uuid \<Rightarrow> jdict \<Rightarrow> AddressRecognitionItem" where
  "recognition_item U bid original =
     (let recognized_address = recognize_one U original
      in \<lparr>recognition_batch_id = bid, recognition_status = ''completed'',
           recognized = [(''original_address'', JObj original),
                         (''recognized_address'', JObj recognized_address)]\<rparr>)"

text \<open>Line 99: the dictionary a parsed payload record contributes.\<close>

definition known_values_dict :: "AddressRecognizeIn \<Rightarrow> jdict" where
  "known_values_dict addr =
     (case address addr of None \<Rightarrow> [] | Some a \<Rightarrow> KnownValues_model_dump a)"

text \<open>
  \<^verbatim>\<open>process_existing_batch\<close> (lines 78-116). There is no \<^verbatim>\<open>session.begin()\<close> block:
  the function commits where the source calls \<^verbatim>\<open>session.commit()\<close>, and an exception
  leaves the session uncommitted.
\<close>

definition recognition_process_existing_batch ::
  "case_tables \<Rightarrow> rsession \<Rightarrow> uuid \<Rightarrow> (error + unit) \<times> rsession" where
  "recognition_process_existing_batch U s bid =
     (case batches (working s) bid of
        None \<Rightarrow> (Inr (), s)
      | Some batch \<Rightarrow>
          if status batch \<in> {''processing'', ''completed''} then (Inr (), s)
          else
            let payload = payload_of batch in
            if payload = [] then
              (Inr (), commit (s\<lparr>working := set_status bid ''failed'' (working s)\<rparr>))
            else
              let s1 = commit (s\<lparr>working := set_status bid ''processing'' (working s)\<rparr>);
                  s2 = s1\<lparr>working := delete_recognition_items bid (working s1)\<rparr>
              in case validate_each AddressRecognizeIn_model_validate payload of
                   Inl e \<Rightarrow> (Inl e, s2)
                 | Inr addresses \<Rightarrow>
                     let s3 = s2\<lparr>working :=
                                fold (\<lambda>addr. add_item (recognition_item U bid (known_values_dict addr)))
                                  addresses (working s2)\<rparr>;
                         s4 = s3\<lparr>working := set_status bid ''completed'' (working s3)\<rparr>
                     in (Inr (), commit s4))"

text \<open>
  \<^verbatim>\<open>recognize_and_store\<close> (lines 43-76). The function reads its arguments only through
  \<^verbatim>\<open>model_dump()\<close>, so the model takes the dumped records; the endpoint passes
  \<^verbatim>\<open>AddressRecognizeIn\<close> objects. The constructor call
  \<^verbatim>\<open>AddressRecognizeResultOut(original_address=..., recognized_address=...)\<close>, which
  checks two \<^verbatim>\<open>AddressOut\<close> objects against fields declared \<^verbatim>\<open>PartialAddressOut\<close>, is
  the parameter \<open>result_out\<close>. As in \<open>validate_and_store\<close>, \<open>new_id\<close> is the key drawn
  for the batch.
\<close>

fun recognize_addresses ::
  "case_tables \<Rightarrow> (AddressIn \<Rightarrow> AddressIn \<Rightarrow> error + 'r) \<Rightarrow> uuid \<Rightarrow> jdict list \<Rightarrow> rdatabase \<Rightarrow> 'r list
     \<Rightarrow> error + rdatabase \<times> 'r list" where
  "recognize_addresses U result_out bid [] d results = Inr (d, results)"
| "recognize_addresses U result_out bid (original # rest) d results =
     (let recognized_address = recognize_one U original;
          d' = add_item (recognition_item U bid original) d
      in and_then (AddressOut_model_validate U (JObj original)) (\<lambda>orig.
         and_then (AddressOut_model_validate U (JObj recognized_address)) (\<lambda>rec.
         and_then (result_out orig rec) (\<lambda>res.
           recognize_addresses U result_out bid rest d' (results @ [res])))))"

definition recognize_and_store ::
  "case_tables \<Rightarrow> (AddressIn \<Rightarrow> AddressIn \<Rightarrow> error + 'r) \<Rightarrow> uuid \<Rightarrow> rsession \<Rightarrow> jdict list
     \<Rightarrow> (error + uuid \<times> 'r list) \<times> rsession" where
  "recognize_and_store U result_out new_id s addresses =
     (let payload = map JObj addresses in
      if batches (working s) new_id \<noteq> None then (Inl IntegrityError, s)
      else
        let s1 = s\<lparr>working := (working s)\<lparr>batches := (batches (working s))(new_id \<mapsto>
                   \<lparr>status = ''completed'', request_payload = Some payload\<rparr>)\<rparr>\<rparr>
        in case recognize_addresses U result_out new_id addresses (working s1) [] of
             Inl e \<Rightarrow> (Inl e, s1)
           | Inr (d', results) \<Rightarrow> (Inr (new_id, results), commit (s1\<lparr>working := d'\<rparr>)))"

section \<open>Worker jobs and the requeue endpoint\<close>

text \<open>
  workers/jobs.py. \<^verbatim>\<open>uuid.UUID\<close> parses the job argument and is a parameter of the
  model. The job opens a session on the database, runs the service and closes the
  session, which rolls back whatever is uncommitted; an exception leaves the job.
  The result is the exception, if any, with the database as the job leaves it and the
  states committed on the way.
\<close>

definition validate_addresses_batch ::
  "case_tables \<Rightarrow> (string \<Rightarrow> error + uuid) \<Rightarrow> vdatabase \<Rightarrow> string \<Rightarrow> error option \<times> vsession" where
  "validate_addresses_batch U UUID d batch_id_str =
     (case UUID batch_id_str of
        Inl e \<Rightarrow> (Some e, async_session_factory d)
      | Inr batch_uuid \<Rightarrow>
          (case process_existing_batch U (async_session_factory d) batch_uuid of
             (Inl e, s) \<Rightarrow> (Some e, rollback s)
           | (Inr u, s) \<Rightarrow> (None, rollback s)))"

definition recognize_addresses_batch ::
  "case_tables \<Rightarrow> (string \<Rightarrow> error + uuid) \<Rightarrow> rdatabase \<Rightarrow> string \<Rightarrow> error option \<times> rsession" where
  "recognize_addresses_batch U UUID d batch_id_str =
     (case UUID batch_id_str of
        Inl e \<Rightarrow> (Some e, async_session_factory d)
      | Inr batch_uuid \<Rightarrow>
          (case recognition_process_existing_batch U (async_session_factory d) batch_uuid of
             (Inl e, s) \<Rightarrow> (Some e, rollback s)
           | (Inr u, s) \<Rightarrow> (None, rollback s)))"

text \<open>
  \<^verbatim>\<open>AddressesAPI.requeue_validation_batch\<close> (api/v1/endpoints/addresses.py, lines
  149-163). The response is the HTTP exception raised, an exception the handler does
  not catch, or success; the state is the database and the list of jobs enqueued.
\<close>

datatype response = Accepted | HTTPException nat string | Unhandled error

definition requeue_validation_batch ::
  "vdatabase \<times> (string \<times> uuid) list \<Rightarrow> uuid
     \<Rightarrow> response \<times> vdatabase \<times> (string \<times> uuid) list" where
  "requeue_validation_batch app bid =
     (case app of (d, queue) \<Rightarrow>
        (case requeue_batch (async_session_factory d) bid of
           (Inl (RuntimeError m), s) \<Rightarrow>
             (HTTPException 409 ''batch is processing'', persisted s, queue)
         | (Inl e, s) \<Rightarrow> (Unhandled e, persisted s, queue)
         | (Inr ok, s) \<Rightarrow>
             if \<not> ok then (HTTPException 404 ''batch_id not found'', persisted s, queue)
             else (Accepted, persisted s, queue @ [(''validate_addresses_batch'', bid)])))"

section \<open>Observations and example data\<close>

text \<open>
  What the specification says of the indicator, in its own words: the value trimmed
  and lowercased, replaced by \<^verbatim>\<open>"unknown"\<close> when it is not one of the three strings.
  \<open>expected_indicator\<close> is the value the normalized record should carry for a given
  input value: an absent or null field gives \<^verbatim>\<open>"unknown"\<close>, a string its canonical
  form, any other value is passed through.
\<close>

definition canonical_indicator :: "case_tables \<Rightarrow> str \<Rightarrow> str" where
  "canonical_indicator U s =
     (let v = lower U (strip s) in if v \<in> indicator_values then v else ascii ''unknown'')"

fun expected_indicator :: "case_tables \<Rightarrow> jvalue option \<Rightarrow> jvalue" where
  "expected_indicator U None = JStr (ascii ''unknown'')"
| "expected_indicator U (Some JNull) = JStr (ascii ''unknown'')"
| "expected_indicator U (Some (JStr s)) = JStr (canonical_indicator U s)"
| "expected_indicator U (Some v) = v"

definition indicator_ok :: "jdict \<Rightarrow> bool" where
  "indicator_ok d =
     (case map_of d ARI of Some (JStr s) \<Rightarrow> s \<in> indicator_values | _ \<Rightarrow> False)"

fun string_or_absent :: "jvalue option \<Rightarrow> bool" where
  "string_or_absent None = True"
| "string_or_absent (Some (JStr s)) = True"
| "string_or_absent (Some v) = False"

text \<open>The record of the specification's scenario, and the same with a blank first line.\<close>

definition example_address :: AddressIn where
  "example_address =
     \<lparr>name = None, phone = None, email = None, company_name = None,
      address_line1 = ascii ''1 Main St'', address_line2 = None, address_line3 = None,
      city_locality = ascii ''anytown'', state_province = ascii ''ca'', postal_code = None,
      country_code = ascii ''us'', address_residential_indicator = Unknown\<rparr>"

definition blank_line_address :: AddressIn where
  "blank_line_address = example_address\<lparr>address_line1 := ascii '' ''\<rparr>"

definition empty_database :: "'item database" where
  "empty_database = \<lparr>batches = Map.empty, items = []\<rparr>"

definition single_batch :: "string \<Rightarrow> jvalue list option \<Rightarrow> 'item list \<Rightarrow> 'item database" where
  "single_batch st payload its =
     \<lparr>batches = [1 \<mapsto> \<lparr>status = st, request_payload = payload\<rparr>], items = its\<rparr>"

text \<open>
  The full item set of a batch: one item for each record of its stored payload, in
  payload order, built as \<^verbatim>\<open>process_existing_batch\<close> builds it; there is none when
  the payload does not parse. A batch's items are regenerated when there are none or
  they are exactly the full set of its current payload.
\<close>

definition full_item_set :: "case_tables \<Rightarrow> uuid \<Rightarrow> Batch \<Rightarrow> AddressValidationItem list option" where
  "full_item_set U bid batch =
     (case validate_each (AddressIn_model_validate U) (payload_of batch) of
        Inl e \<Rightarrow> None
      | Inr addresses \<Rightarrow> Some (map (validation_item U bid) addresses))"

definition items_regenerated :: "case_tables \<Rightarrow> vdatabase \<Rightarrow> uuid \<Rightarrow> bool" where
  "items_regenerated U d bid =
     (items_of d bid = [] \<or>
      (case batches d bid of
         None \<Rightarrow> False
       | Some batch \<Rightarrow> full_item_set U bid batch = Some (items_of d bid)))"

definition recognition_full_item_set :: "case_tables \<Rightarrow> uuid \<Rightarrow> Batch \<Rightarrow> AddressRecognitionItem list option" where
  "recognition_full_item_set U bid batch =
     (case validate_each AddressRecognizeIn_model_validate (payload_of batch) of
        Inl e \<Rightarrow> None
      | Inr addresses \<Rightarrow>
          Some (map (\<lambda>addr. recognition_item U bid (known_values_dict addr)) addresses))"

definition recognition_items_regenerated :: "case_tables \<Rightarrow> rdatabase \<Rightarrow> uuid \<Rightarrow> bool" where
  "recognition_items_regenerated U d bid =
     (recognition_items_of d bid = [] \<or>
      (case batches d bid of
         None \<Rightarrow> False
       | Some batch \<Rightarrow> recognition_full_item_set U bid batch = Some (recognition_items_of d bid)))"

text \<open>
  The database after a batch has been processed: the batch completed, its old items
  gone, the new items appended.
\<close>

definition processed :: "case_tables \<Rightarrow> uuid \<Rightarrow> Batch \<Rightarrow> AddressIn list \<Rightarrow> vdatabase \<Rightarrow> vdatabase" where
  "processed U bid batch addresses d =
     \<lparr>batches = (batches d)(bid \<mapsto> batch\<lparr>status := ''completed''\<rparr>),
      items = filter (\<lambda>i. batch_id i \<noteq> bid) (items d) @ map (validation_item U bid) addresses\<rparr>"

definition recognized_db :: "case_tables \<Rightarrow> uuid \<Rightarrow> Batch \<Rightarrow> AddressRecognizeIn list \<Rightarrow> rdatabase \<Rightarrow> rdatabase" where
  "recognized_db U bid batch addresses d =
     \<lparr>batches = (batches d)(bid \<mapsto> batch\<lparr>status := ''completed''\<rparr>),
      items = filter (\<lambda>i. recognition_batch_id i \<noteq> bid) (items d)
                @ map (\<lambda>addr. recognition_item U bid (known_values_dict addr)) addresses\<rparr>"

text \<open>
  More example data: a recognition request, the matched form and the result of the
  example address, the state a synchronous create of the example leaves behind, and
  databases holding one batch under key 1.
\<close>

definition example_recognize_in :: AddressRecognizeIn where
  "example_recognize_in = \<lparr>rec_text = ascii ''1 Main St, Anytown CA'', address = None\<rparr>"

definition example_matched :: AddressIn where
  "example_matched =
     example_address\<lparr>address_line1 := ascii ''1 MAIN ST'', city_locality := ascii ''ANYTOWN'',
       state_province := ascii ''CA'', country_code := ascii ''US''\<rparr>"

definition example_result :: AddressValidationResultOut where
  "example_result =
     \<lparr>result_status = ''verified'', result_original_address = example_address,
      result_matched_address = example_matched,
      result_messages = [\<lparr>code = ascii ''missing_postal_code'',
                           message = ascii ''postal_code is recommended for US'',
                           level = ascii ''warning''\<rparr>]\<rparr>"

definition example_stored :: "case_tables \<Rightarrow> vdatabase" where
  "example_stored U =
     \<lparr>batches = [1 \<mapsto> \<lparr>status = ''completed'',
                         request_payload = Some [JObj (model_dump example_address)]\<rparr>],
      items = [validation_item U 1 example_address]\<rparr>"

definition example_session :: "case_tables \<Rightarrow> vsession" where
  "example_session U =
     \<lparr>persisted = example_stored U, working = example_stored U, commits = [example_stored U]\<rparr>"

definition in_flight_batch :: vdatabase where
  "in_flight_batch = single_batch ''processing'' (Some [JObj (model_dump example_address)]) []"

definition queued_recognition :: rdatabase where
  "queued_recognition =
     single_batch ''queued'' (Some [JObj (AddressRecognizeIn_model_dump example_recognize_in)]) []"

definition queued_validation :: vdatabase where
  "queued_validation = single_batch ''queued'' (Some [JObj (model_dump example_address)]) []"

definition malformed_batch :: vdatabase where
  "malformed_batch = single_batch ''queued'' (Some [JObj []]) []"

definition in_flight_empty :: vdatabase where
  "in_flight_empty = single_batch ''processing'' None []"

definition queued_empty :: vdatabase where
  "queued_empty = single_batch ''queued'' None []"

text \<open>
  What the idempotence of normalization needs of the case tables, beyond ASCII: a
  code point that a case mapping produces is mapped to itself by the same mapping
  (and lowering never produces a capital sigma), and the mapping of a code point that
  is not whitespace is not empty and neither begins nor ends with whitespace. The
  example tables map the sharp s to \<^verbatim>\<open>SS\<close>, the u with diaeresis to its capital and
  back, and lower the capital sigma to the final form at the end of the string and to
  the small sigma elsewhere.
\<close>

definition upper_fixed :: "case_tables \<Rightarrow> nat \<Rightarrow> bool" where
  "upper_fixed U c = (upper_char U c = [c])"

definition lower_fixed :: "case_tables \<Rightarrow> nat \<Rightarrow> bool" where
  "lower_fixed U c =
     (c \<noteq> 931 \<and> (if c < 128 then \<not> (65 \<le> c \<and> c \<le> 90) else to_lower_full U c = [c]))"

definition edges_kept :: "str \<Rightarrow> bool" where
  "edges_kept t = (t \<noteq> [] \<and> \<not> isspace (hd t) \<and> \<not> isspace (last t))"

definition case_tables_ok :: "case_tables \<Rightarrow> bool" where
  "case_tables_ok U =
     ((\<forall>c. 128 \<le> c \<longrightarrow>
          list_all (upper_fixed U) (to_upper_full U c) \<and>
          list_all (lower_fixed U) (to_lower_full U c) \<and>
          (\<not> isspace c \<longrightarrow> edges_kept (to_upper_full U c) \<and> edges_kept (to_lower_full U c))) \<and>
      lower_fixed U 962 \<and> lower_fixed U 963)"

definition example_tables :: case_tables where
  "example_tables =
     \<lparr>to_upper_full = (\<lambda>c. if c = 223 then [83, 83] else if c = 252 then [220] else [c]),
      to_lower_full = (\<lambda>c. if c = 220 then [252] else if c = 931 then [963] else [c]),
      final_sigma = (\<lambda>seen rest. rest = [])\<rparr>"

definition example_street :: jdict where
  "example_street =
     [(''address_line1'', JStr [160, 115, 116, 114, 97, 223, 101, 32, 49, 32]),
      (''city_locality'', JStr [109, 252, 110, 99, 104, 101, 110]),
      (''email'', JStr [88, 64, 220, 931])]"

section \<open>String methods and dictionary loops\<close>

lemma ascii_eq_iff [simp]: "ascii s = ascii t \<longleftrightarrow> s = t"
proof -
  have "inj (of_char :: char \<Rightarrow> nat)" by (rule injI) simp
  then show ?thesis by (simp add: ascii_def inj_map_eq_map)
qed

lemma length_ascii [simp]: "length (ascii s) = length s"
  by (simp add: ascii_def)

lemma ascii_Nil [simp]: "ascii [] = []"
  by (simp add: ascii_def)

lemma dropWhile_rev_fixed:
  assumes "t = [] \<or> \<not> P (hd t)"
  shows "dropWhile P (rev (dropWhile P (rev t))) = rev (dropWhile P (rev t))"
proof (cases "dropWhile P (rev t)")
  case Nil
  show ?thesis by (simp only: Nil rev.simps dropWhile.simps)
next
  case (Cons a as)
  then have ne: "dropWhile P (rev t) \<noteq> []" and t: "t \<noteq> []" by auto
  from assms t have "\<not> P (hd t)" and "hd t \<in> set (rev t)" by simp_all
  then have "last (dropWhile P (rev t)) = last (rev t)" by (simp add: dropWhile_last)
  with ne t have "hd (rev (dropWhile P (rev t))) = hd t" by (simp add: hd_rev last_rev)
  with assms t have "\<not> P (hd (rev (dropWhile P (rev t))))" by simp
  then show ?thesis by (simp add: dropWhile_eq_self_iff)
qed

lemma strip_idem: "strip (strip s) = strip s"
proof -
  have "dropWhile isspace s = [] \<or> \<not> isspace (hd (dropWhile isspace s))"
    using hd_dropWhile [of isspace s] by blast
  then show ?thesis
    unfolding strip_def by (simp add: dropWhile_rev_fixed)
qed

text \<open>A stripped string is empty or has no whitespace at either end, and conversely.\<close>

lemma strip_edges: "strip s = [] \<or> edges_kept (strip s)"
proof (cases "strip s = []")
  case True
  then show ?thesis by simp
next
  case False
  let ?t = "dropWhile isspace s"
  let ?u = "dropWhile isspace (rev ?t)"
  from False have u: "?u \<noteq> []" by (simp add: strip_def)
  then have t: "?t \<noteq> []" by (metis dropWhile.simps(1) rev.simps(1))
  from u have hu: "\<not> isspace (hd ?u)" by (rule hd_dropWhile)
  from t have ht: "\<not> isspace (hd ?t)" by (rule hd_dropWhile)
  from t ht have "last ?u = last (rev ?t)"
    by (intro dropWhile_last [of "hd ?t"]) simp_all
  with t have "last ?u = hd ?t" by (simp add: last_rev)
  with u hu ht have "\<not> isspace (hd (rev ?u)) \<and> \<not> isspace (last (rev ?u))"
    by (simp add: hd_rev last_rev)
  with False show ?thesis by (simp add: edges_kept_def strip_def)
qed

lemma strip_fixed:
  assumes "t = [] \<or> edges_kept t"
  shows "strip t = t"
proof (cases "t = []")
  case True
  then show ?thesis by (simp add: strip_def)
next
  case False
  with assms have h: "\<not> isspace (hd t)" and l: "\<not> isspace (last t)"
    by (simp_all add: edges_kept_def)
  from h have 1: "dropWhile isspace t = t" by (simp add: dropWhile_eq_self_iff)
  from l False have 2: "dropWhile isspace (rev t) = rev t"
    by (simp add: dropWhile_eq_self_iff hd_rev)
  show ?thesis by (simp add: strip_def 1 2)
qed

lemma isspace_range: "isspace c \<Longrightarrow> c \<le> 32 \<or> 133 \<le> c"
  by (auto simp add: isspace_def)

text \<open>
  Case mappings: under the conditions on the tables, every code point of a mapped
  string is a fixed point of the mapping, so mapping twice is mapping once; and a
  string without whitespace at its ends keeps that, so it stays stripped.
\<close>

lemma concat_map_fixed: "(\<And>x. x \<in> set t \<Longrightarrow> f x = [x]) \<Longrightarrow> concat (map f t) = t"
  by (induction t) simp_all

lemma upper_char_out:
  assumes "case_tables_ok U" and "c' \<in> set (upper_char U c)"
  shows "upper_char U c' = [c']"
proof (cases "c < 128")
  case True
  with assms(2) show ?thesis by (auto simp add: upper_char_def split: if_splits)
next
  case False
  with assms(1) have "list_all (upper_fixed U) (to_upper_full U c)"
    by (simp add: case_tables_ok_def)
  with assms(2) False show ?thesis
    by (simp add: upper_char_def [of U c] list_all_iff upper_fixed_def)
qed

lemma upper_idem: "case_tables_ok U \<Longrightarrow> upper U (upper U s) = upper U s"
  unfolding upper_def by (rule concat_map_fixed) (auto dest: upper_char_out)

lemma upper_char_edges:
  assumes "case_tables_ok U" and "\<not> isspace c"
  shows "edges_kept (upper_char U c)"
proof (cases "c < 128")
  case True
  show ?thesis
  proof (cases "97 \<le> c \<and> c \<le> 122")
    case True
    then have "\<not> isspace (c - 32)" using isspace_range [of "c - 32"] by auto
    with True show ?thesis by (simp add: upper_char_def edges_kept_def)
  next
    case False
    with assms(2) \<open>c < 128\<close> show ?thesis by (auto simp add: upper_char_def edges_kept_def)
  qed
next
  case False
  with assms show ?thesis by (simp add: upper_char_def case_tables_ok_def)
qed

lemma concat_map_edges:
  assumes "s \<noteq> []" and "edges_kept (f (hd s))" and "edges_kept (f (last s))"
  shows "edges_kept (concat (map f s))"
proof -
  from assms(1) obtain x xs where s1: "s = x # xs" by (cases s) auto
  from assms(1) obtain ys y where s2: "s = ys @ [y]" by (cases s rule: rev_cases) auto
  from assms(2) have fx: "f x \<noteq> []" "\<not> isspace (hd (f x))" by (simp_all add: s1 edges_kept_def)
  from assms(3) have fy: "f y \<noteq> []" "\<not> isspace (last (f y))" by (simp_all add: s2 edges_kept_def)
  have "hd (concat (map f s)) = hd (f x)" using fx by (simp add: s1)
  moreover have "last (concat (map f s)) = last (f y)" using fy by (simp add: s2)
  moreover have "concat (map f s) \<noteq> []" using fx by (simp add: s1)
  ultimately show ?thesis using fx fy by (simp add: edges_kept_def)
qed

lemma upper_edges:
  assumes "case_tables_ok U" and "edges_kept s"
  shows "edges_kept (upper U s)"
  unfolding upper_def
  using assms by (intro concat_map_edges upper_char_edges) (simp_all add: edges_kept_def)

lemma strip_upper_stripped:
  assumes "case_tables_ok U"
  shows "strip (upper U (strip v)) = upper U (strip v)"
proof (rule strip_fixed)
  from strip_edges [of v] show "upper U (strip v) = [] \<or> edges_kept (upper U (strip v))"
    by (auto simp add: upper_def upper_edges [OF assms, unfolded upper_def])
qed

lemma lower_char_out:
  assumes "case_tables_ok U" and "c' \<in> set (lower_char U seen c rest)"
  shows "lower_fixed U c'"
proof -
  consider "c = 931" | "c \<noteq> 931" "c < 128" | "c \<noteq> 931" "\<not> c < 128" by blast
  then show ?thesis
  proof cases
    case 1
    with assms show ?thesis
      by (auto simp add: lower_char_def case_tables_ok_def split: if_splits)
  next
    case 2
    with assms(2) show ?thesis
      by (auto simp add: lower_char_def lower_fixed_def split: if_splits)
  next
    case 3
    with assms(1) have "list_all (lower_fixed U) (to_lower_full U c)"
      by (simp add: case_tables_ok_def)
    with assms(2) 3 show ?thesis
      by (simp add: lower_char_def list_all_iff)
  qed
qed

lemma lower_from_out:
  "case_tables_ok U \<Longrightarrow> c' \<in> set (lower_from U seen s) \<Longrightarrow> lower_fixed U c'"
  by (induction s arbitrary: seen) (auto dest: lower_char_out)

lemma lower_char_fixed: "lower_fixed U c \<Longrightarrow> lower_char U seen c rest = [c]"
  by (auto simp add: lower_fixed_def lower_char_def split: if_splits)

lemma lower_from_fixed: "(\<And>c. c \<in> set t \<Longrightarrow> lower_fixed U c) \<Longrightarrow> lower_from U seen t = t"
  by (induction t arbitrary: seen) (simp_all add: lower_char_fixed)

lemma lower_idem: "case_tables_ok U \<Longrightarrow> lower U (lower U s) = lower U s"
  unfolding lower_def by (rule lower_from_fixed) (rule lower_from_out)

lemma lower_char_edges:
  assumes "case_tables_ok U" and "\<not> isspace c"
  shows "edges_kept (lower_char U seen c rest)"
proof -
  consider "c = 931" | "c \<noteq> 931" "c < 128" | "c \<noteq> 931" "\<not> c < 128" by blast
  then show ?thesis
  proof cases
    case 1
    have "\<not> isspace 962" "\<not> isspace 963"
      by (simp_all add: isspace_def)
    with 1 show ?thesis by (simp add: lower_char_def edges_kept_def)
  next
    case 2
    show ?thesis
    proof (cases "65 \<le> c \<and> c \<le> 90")
      case True
      then have "\<not> isspace (c + 32)" using isspace_range [of "c + 32"] by auto
      with True 2 show ?thesis by (simp add: lower_char_def edges_kept_def)
    next
      case False
      with assms(2) 2 show ?thesis by (auto simp add: lower_char_def edges_kept_def)
    qed
  next
    case 3
    with assms show ?thesis by (simp add: lower_char_def case_tables_ok_def)
  qed
qed

lemma lower_from_last:
  "case_tables_ok U \<Longrightarrow> s \<noteq> [] \<Longrightarrow> \<not> isspace (last s) \<Longrightarrow>
   lower_from U seen s \<noteq> [] \<and> \<not> isspace (last (lower_from U seen s))"
proof (induction s arbitrary: seen)
  case Nil
  then show ?case by simp
next
  case (Cons c rest)
  show ?case
  proof (cases "rest = []")
    case True
    with Cons.prems lower_char_edges [of U c seen "[]"] show ?thesis
      by (simp add: edges_kept_def)
  next
    case False
    with Cons.prems have "\<not> isspace (last rest)" by simp
    from Cons.IH [OF Cons.prems(1) False this, of "c # seen"] show ?thesis by simp
  qed
qed

lemma lower_edges:
  assumes "case_tables_ok U" and "edges_kept s"
  shows "edges_kept (lower U s)"
proof -
  from assms(2) obtain c rest where s: "s = c # rest" and c: "\<not> isspace c"
    by (cases s) (auto simp add: edges_kept_def)
  from lower_char_edges [OF assms(1) c, of "[]" rest]
  have h: "lower_char U [] c rest \<noteq> []" "\<not> isspace (hd (lower_char U [] c rest))"
    by (simp_all add: edges_kept_def)
  from assms have "lower_from U [] s \<noteq> [] \<and> \<not> isspace (last (lower_from U [] s))"
    by (intro lower_from_last) (simp_all add: edges_kept_def)
  with h show ?thesis by (simp add: edges_kept_def lower_def s)
qed

lemma strip_lower_stripped:
  assumes "case_tables_ok U"
  shows "strip (lower U (strip v)) = lower U (strip v)"
proof (rule strip_fixed)
  from strip_edges [of v] show "lower U (strip v) = [] \<or> edges_kept (lower U (strip v))"
    by (auto simp add: lower_def lower_edges [OF assms, unfolded lower_def])
qed

text \<open>The three indicator strings are ASCII and lowercase: stripping and lowering keep them.\<close>

lemma indicator_fixed:
  assumes "x \<in> indicator_values"
  shows "strip x = x" and "lower U x = x"
proof -
  have s: "strip (ascii ''unknown'') = ascii ''unknown''" "strip (ascii ''yes'') = ascii ''yes''"
    "strip (ascii ''no'') = ascii ''no''"
    by (simp_all add: ascii_def strip_def isspace_def)
  have l: "lower U (ascii ''unknown'') = ascii ''unknown''" "lower U (ascii ''yes'') = ascii ''yes''"
    "lower U (ascii ''no'') = ascii ''no''"
    by (simp_all add: ascii_def lower_def lower_char_def)
  from assms s show "strip x = x" by (auto simp add: indicator_values_def)
  from assms l show "lower U x = x" by (auto simp add: indicator_values_def)
qed

lemma unknown_fixed:
  "strip (ascii ''unknown'') = ascii ''unknown''"
  "lower U (ascii ''unknown'') = ascii ''unknown''"
  by (simp_all add: indicator_fixed indicator_values_def)

lemmas str_eval =
  ascii_def strip_def isspace_def upper_def upper_char_def lower_def lower_char_def

lemma normalize_value_idem:
  assumes "case_tables_ok U"
  shows "normalize_value U k (normalize_value U k v) = normalize_value U k v"
proof (cases v)
  case (JStr s)
  have u: "ascii ''unknown'' \<in> indicator_values" by (simp add: indicator_values_def)
  show ?thesis using JStr indicator_fixed u
    by (simp add: Let_def strip_idem strip_upper_stripped [OF assms]
        strip_lower_stripped [OF assms] upper_idem [OF assms] lower_idem [OF assms])
qed simp_all

lemma recognize_value_idem:
  assumes "case_tables_ok U"
  shows "recognize_value U k (recognize_value U k v) = recognize_value U k v"
proof (cases v)
  case (JStr s)
  have u: "ascii ''unknown'' \<in> indicator_values" by (simp add: indicator_values_def)
  show ?thesis using JStr indicator_fixed u
    by (simp add: Let_def strip_idem strip_upper_stripped [OF assms]
        strip_lower_stripped [OF assms] upper_idem [OF assms] lower_idem [OF assms])
qed simp_all

lemma normalize_value_unknown: "normalize_value U ARI (JStr (ascii ''unknown'')) = JStr (ascii ''unknown'')"
  by (simp add: Let_def unknown_fixed indicator_values_def)

lemma recognize_value_unknown: "recognize_value U ARI (JStr (ascii ''unknown'')) = JStr (ascii ''unknown'')"
  by (simp add: Let_def unknown_fixed indicator_values_def ARI_def)

text \<open>
  The loop \<^verbatim>\<open>for key, value in addr.items(): out[key] = f(key, value)\<close>: every entry of
  the result is an entry of the start dictionary or an image under \<open>f\<close>, the keys
  stay distinct, the loop reproduces a dictionary whose values \<open>f\<close> leaves alone,
  and it sends the value at a key to its image.
\<close>

lemma set_update_cases:
  "(k, v) \<in> set (AList.update k' v' al) \<Longrightarrow> (k, v) \<in> set al \<or> (k = k' \<and> v = v')"
  by (induction al) (auto split: if_splits)

lemma update_fresh: "k \<notin> fst ` set al \<Longrightarrow> AList.update k v al = al @ [(k, v)]"
  by (induction al) auto

lemma loop_values:
  "(k, v) \<in> set (fold (\<lambda>(key, w) acc. AList.update key (f key w) acc) d acc)
   \<Longrightarrow> (k, v) \<in> set acc \<or> (\<exists>w. v = f k w)"
proof (induction d arbitrary: acc)
  case Nil
  then show ?case by simp
next
  case (Cons p d)
  obtain key w where p: "p = (key, w)" by (cases p)
  from Cons.prems have "(k, v) \<in> set (fold (\<lambda>(key, w) acc. AList.update key (f key w) acc) d
      (AList.update key (f key w) acc))" by (simp add: p)
  from Cons.IH [OF this] show ?case
    by (auto dest: set_update_cases)
qed

lemma loop_distinct:
  "distinct (map fst acc) \<Longrightarrow>
   distinct (map fst (fold (\<lambda>(key, w) acc. AList.update key (f key w) acc) d acc))"
  by (induction d arbitrary: acc) (auto simp add: distinct_update split: prod.splits)

lemma loop_fixed:
  "distinct (map fst (acc @ d)) \<Longrightarrow> (\<And>k v. (k, v) \<in> set d \<Longrightarrow> f k v = v) \<Longrightarrow>
   fold (\<lambda>(key, w) acc. AList.update key (f key w) acc) d acc = acc @ d"
proof (induction d arbitrary: acc)
  case Nil
  then show ?case by simp
next
  case (Cons p d)
  obtain key w where p: "p = (key, w)" by (cases p)
  from Cons.prems(1) have fresh: "key \<notin> fst ` set acc" by (auto simp add: p)
  from Cons.prems(2) have fw: "f key w = w" by (simp add: p)
  have "fold (\<lambda>(key, w) acc. AList.update key (f key w) acc) d (acc @ [(key, w)])
          = (acc @ [(key, w)]) @ d"
  proof (rule Cons.IH)
    show "distinct (map fst ((acc @ [(key, w)]) @ d))" using Cons.prems(1) by (simp add: p)
    show "\<And>k v. (k, v) \<in> set d \<Longrightarrow> f k v = v" using Cons.prems(2) by simp
  qed
  then show ?case by (simp add: p fw update_fresh [OF fresh])
qed

lemma loop_lookup:
  "distinct (map fst d) \<Longrightarrow>
   map_of (fold (\<lambda>(key, w) acc. AList.update key (f key w) acc) d acc) k =
     (case map_of d k of None \<Rightarrow> map_of acc k | Some w \<Rightarrow> Some (f k w))"
proof (induction d arbitrary: acc)
  case Nil
  then show ?case by simp
next
  case (Cons p d)
  obtain key w where p: "p = (key, w)" by (cases p)
  from Cons.prems have d: "distinct (map fst d)" and nk: "map_of d key = None"
    by (auto simp add: p map_of_eq_None_iff)
  show ?case using nk
    by (simp add: p Cons.IH [OF d] update_conv' split: option.splits)
qed

section \<open>Normalization is idempotent\<close>

lemma normalize_idempotent:
  assumes "case_tables_ok U"
  shows "normalize U (normalize U x) = normalize U x"
proof -
  let ?L = "fold (\<lambda>(key, v) acc. AList.update key (normalize_value U key v) acc) x []"
  define R where "R = normalize U x"
  have dL: "distinct (map fst ?L)" by (rule loop_distinct) simp
  have dR: "distinct (map fst R)"
    using dL by (simp add: R_def normalize_def Let_def distinct_update)
  have vL: "normalize_value U k v = v" if "(k, v) \<in> set ?L" for k v
    using loop_values [OF that] by (auto simp add: normalize_value_idem [OF assms])
  have vR: "normalize_value U k v = v" if "(k, v) \<in> set R" for k v
  proof -
    from that have "(k, v) \<in> set ?L \<or> (k = ARI \<and> v = JStr (ascii ''unknown''))"
      by (auto simp add: R_def normalize_def Let_def split: if_splits dest!: set_update_cases)
    then show ?thesis
    proof
      assume "(k, v) \<in> set ?L"
      then show ?thesis by (rule vL)
    next
      assume "k = ARI \<and> v = JStr (ascii ''unknown'')"
      then show ?thesis by (simp only: normalize_value_unknown)
    qed
  qed
  have loop: "fold (\<lambda>(key, v) acc. AList.update key (normalize_value U key v) acc) R [] = R"
    using loop_fixed [of "[]" R "normalize_value U"] dR vR by simp
  have present: "map_of R ARI \<noteq> None"
    by (simp add: R_def normalize_def Let_def update_conv')
  have "normalize U R = R"
    using present by (auto simp add: normalize_def [of U R] loop Let_def)
  then show ?thesis by (simp add: R_def)
qed

lemma recognize_one_idempotent:
  assumes "case_tables_ok U"
  shows "recognize_one U (recognize_one U x) = recognize_one U x"
proof -
  let ?L = "fold (\<lambda>(k, v) acc. AList.update k (recognize_value U k v) acc) x []"
  define R where "R = recognize_one U x"
  have dL: "distinct (map fst ?L)" by (rule loop_distinct) simp
  have dR: "distinct (map fst R)"
    using dL by (simp add: R_def recognize_one_def Let_def distinct_update)
  have vL: "recognize_value U k v = v" if "(k, v) \<in> set ?L" for k v
    using loop_values [OF that] by (auto simp add: recognize_value_idem [OF assms])
  have vR: "recognize_value U k v = v" if "(k, v) \<in> set R" for k v
  proof -
    from that have "(k, v) \<in> set ?L \<or> (k = ARI \<and> v = JStr (ascii ''unknown''))"
      by (auto simp add: R_def recognize_one_def Let_def split: if_splits dest!: set_update_cases)
    then show ?thesis
    proof
      assume "(k, v) \<in> set ?L"
      then show ?thesis by (rule vL)
    next
      assume "k = ARI \<and> v = JStr (ascii ''unknown'')"
      then show ?thesis by (simp only: recognize_value_unknown)
    qed
  qed
  have loop: "fold (\<lambda>(k, v) acc. AList.update k (recognize_value U k v) acc) R [] = R"
    using loop_fixed [of "[]" R "recognize_value U"] dR vR by simp
  have present: "map_of R ARI \<noteq> None \<and> map_of R ARI \<noteq> Some JNull"
    by (simp add: R_def recognize_one_def Let_def update_conv')
  have "recognize_one U R = R"
    using present by (auto simp add: recognize_one_def [of U R] loop Let_def)
  then show ?thesis by (simp add: R_def)
qed

text \<open>
  The example tables meet the conditions, and the example record shows what they do:
  the no-break space and the blank at the ends are stripped, the sharp s becomes
  \<^verbatim>\<open>SS\<close>, the capital sigma at the end of the email is lowered to the final
  sigma.
\<close>

lemma example_tables_ok: "case_tables_ok example_tables"
  by (auto simp add: case_tables_ok_def example_tables_def upper_fixed_def lower_fixed_def
      upper_char_def edges_kept_def isspace_def)

lemma example_street_normalized:
  "normalize example_tables example_street =
     [(''address_line1'', JStr (ascii ''STRASSE 1'')),
      (''city_locality'', JStr [77, 220, 78, 67, 72, 69, 78]),
      (''email'', JStr [120, 64, 252, 962]),
      (ARI, JStr (ascii ''unknown''))]"
  by (simp add: normalize_def example_street_def example_tables_def ARI_def str_eval)

text \<open>
  Claim C8. Normalization is idempotent in both pipelines: for every dictionary \<open>x\<close>,
  whatever its keys and whatever the types and the code points of its values,
  normalizing the normalized record changes nothing. The Unicode case tables of the
  interpreter are the parameter \<open>U\<close>; the theorem holds for all tables in which the
  code points a case mapping produces are fixed points of it and the mapping of a
  code point that is not whitespace has no whitespace at its ends.
\<close>

theorem normalization_idempotent:
  assumes "case_tables_ok U"
  shows "normalize U (normalize U x) = normalize U x \<and>
         recognize_one U (recognize_one U x) = recognize_one U x"
  using assms by (simp add: normalize_idempotent recognize_one_idempotent)

text \<open>
  Witness for C8: tables with a mapping that lengthens the string (the sharp s), and
  a record with a no-break space, a sharp s, a capital sigma and letters beyond ASCII.
\<close>

theorem normalization_idempotent_witness:
  "case_tables_ok example_tables \<and>
   normalize example_tables (normalize example_tables example_street)
     = normalize example_tables example_street \<and>
   recognize_one example_tables (recognize_one example_tables example_street)
     = recognize_one example_tables example_street \<and>
   map_of (normalize example_tables example_street) ''address_line1''
     = Some (JStr (ascii ''STRASSE 1''))"
  using normalization_idempotent [OF example_tables_ok, of example_street]
  by (simp add: example_street_normalized example_tables_ok)

section \<open>The residential indicator\<close>

lemma canonical_indicator_closed: "canonical_indicator U s \<in> indicator_values"
  by (simp add: canonical_indicator_def Let_def indicator_values_def)

lemma normalize_lookup:
  assumes "distinct (map fst addr)"
  shows "map_of (normalize U addr) ARI =
     (case map_of addr ARI of None \<Rightarrow> Some (JStr (ascii ''unknown'')) | Some v \<Rightarrow> Some (normalize_value U ARI v))"
  using assms
  by (simp add: normalize_def Let_def loop_lookup update_conv' split: option.splits)

lemma recognize_one_lookup:
  assumes "distinct (map fst addr)"
  shows "map_of (recognize_one U addr) ARI =
     (case map_of addr ARI of
        None \<Rightarrow> Some (JStr (ascii ''unknown''))
      | Some v \<Rightarrow> if recognize_value U ARI v = JNull then Some (JStr (ascii ''unknown''))
                  else Some (recognize_value U ARI v))"
  using assms
  by (simp add: recognize_one_def Let_def loop_lookup update_conv' split: option.splits)

lemma normalize_value_indicator:
  "v \<noteq> JNull \<Longrightarrow> normalize_value U ARI v = expected_indicator U (Some v)"
  by (cases v) (simp_all add: canonical_indicator_def Let_def)

lemma recognize_value_indicator:
  "(if recognize_value U ARI v = JNull then JStr (ascii ''unknown'') else recognize_value U ARI v)
     = expected_indicator U (Some v)"
  by (cases v) (simp_all add: canonical_indicator_def Let_def ARI_def strip_idem)

text \<open>
  Claim C3, as amended. For every record (a dictionary, each key once),
  \<^verbatim>\<open>_recognize_one\<close> writes the expected indicator: \<^verbatim>\<open>"unknown"\<close> for an absent or null
  field, the trimmed and lowercased string when that is one of \<^verbatim>\<open>"unknown"\<close>, \<^verbatim>\<open>"yes"\<close>,
  \<^verbatim>\<open>"no"\<close> and \<^verbatim>\<open>"unknown"\<close> for any other string, and a value that is neither a string
  nor null unchanged. \<^verbatim>\<open>_normalize\<close> does the same for every field that is not null.
  So when the field is absent or a string, both normalized records carry one of the
  three strings, and so does the recognized record of a null field.
\<close>

theorem indicator_normalization:
  assumes "distinct (map fst addr)"
  shows "map_of (recognize_one U addr) ARI = Some (expected_indicator U (map_of addr ARI)) \<and>
         (map_of addr ARI \<noteq> Some JNull \<longrightarrow>
            map_of (normalize U addr) ARI = Some (expected_indicator U (map_of addr ARI))) \<and>
         (string_or_absent (map_of addr ARI) \<longrightarrow>
            indicator_ok (normalize U addr) \<and> indicator_ok (recognize_one U addr)) \<and>
         (map_of addr ARI = Some JNull \<longrightarrow> indicator_ok (recognize_one U addr))"
proof -
  have r: "map_of (recognize_one U addr) ARI = Some (expected_indicator U (map_of addr ARI))"
  proof (cases "map_of addr ARI")
    case None
    then show ?thesis by (simp add: recognize_one_lookup [OF assms])
  next
    case (Some v)
    then show ?thesis
      using recognize_value_indicator [of U v]
      by (simp add: recognize_one_lookup [OF assms] split: if_splits)
  qed
  have n: "map_of (normalize U addr) ARI = Some (expected_indicator U (map_of addr ARI))"
    if "map_of addr ARI \<noteq> Some JNull"
  proof (cases "map_of addr ARI")
    case None
    then show ?thesis by (simp add: normalize_lookup [OF assms])
  next
    case (Some v)
    with that have "v \<noteq> JNull" by simp
    then show ?thesis
      by (simp add: normalize_lookup [OF assms] Some normalize_value_indicator)
  qed
  have ok: "indicator_ok (normalize U addr) \<and> indicator_ok (recognize_one U addr)"
    if "string_or_absent (map_of addr ARI)"
  proof -
    from that have nn: "map_of addr ARI \<noteq> Some JNull" by auto
    from that have "\<exists>s. expected_indicator U (map_of addr ARI) = JStr s \<and> s \<in> indicator_values"
      by (cases "map_of addr ARI" rule: string_or_absent.cases)
         (simp_all add: canonical_indicator_closed, simp add: indicator_values_def)
    then show ?thesis
      using r n [OF nn] by (auto simp add: indicator_ok_def)
  qed
  have null: "indicator_ok (recognize_one U addr)" if "map_of addr ARI = Some JNull"
    using r that by (simp add: indicator_ok_def indicator_values_def)
  from r n ok null show ?thesis by blast
qed

text \<open>
  Witness for C3: an indicator with blanks and capitals, and a null indicator under
  recognition.
\<close>

theorem indicator_normalization_witness:
  "\<forall>U.
     map_of (normalize U [(ARI, JStr (ascii '' YES ''))]) ARI = Some (JStr (ascii ''yes'')) \<and>
     map_of (recognize_one U [(ARI, JStr (ascii '' YES ''))]) ARI = Some (JStr (ascii ''yes'')) \<and>
     indicator_ok (normalize U [(ARI, JStr (ascii '' YES ''))]) \<and>
     map_of (recognize_one U [(ARI, JNull)]) ARI = Some (JStr (ascii ''unknown'')) \<and>
     indicator_ok (recognize_one U [(ARI, JNull)])"
proof
  fix U
  have c: "canonical_indicator U (ascii '' YES '') = ascii ''yes''"
    by (simp add: canonical_indicator_def indicator_values_def str_eval)
  show "map_of (normalize U [(ARI, JStr (ascii '' YES ''))]) ARI = Some (JStr (ascii ''yes'')) \<and>
     map_of (recognize_one U [(ARI, JStr (ascii '' YES ''))]) ARI = Some (JStr (ascii ''yes'')) \<and>
     indicator_ok (normalize U [(ARI, JStr (ascii '' YES ''))]) \<and>
     map_of (recognize_one U [(ARI, JNull)]) ARI = Some (JStr (ascii ''unknown'')) \<and>
     indicator_ok (recognize_one U [(ARI, JNull)])"
    using indicator_normalization [of "[(ARI, JStr (ascii '' YES ''))]" U]
      indicator_normalization [of "[(ARI, JNull)]" U]
    by (simp add: c)
qed

text \<open>
  Counterexample to C3 as stated: an indicator that is a number is passed through by
  both functions, so the normalized record does not carry one of the three strings.
\<close>

theorem indicator_passes_through_counterexample:
  "\<forall>U. \<not> indicator_ok (normalize U [(ARI, JInt 5)]) \<and>
        \<not> indicator_ok (recognize_one U [(ARI, JInt 5)])"
  by (simp add: indicator_ok_def normalize_def recognize_one_def)

text \<open>
  A null indicator: \<^verbatim>\<open>_normalize\<close> keeps it, \<^verbatim>\<open>_recognize_one\<close> replaces it.
\<close>

lemma normalize_null_indicator:
  "normalize U [(ARI, JNull)] = [(ARI, JNull)] \<and>
   recognize_one U [(ARI, JNull)] = [(ARI, JStr (ascii ''unknown''))]"
  by (simp add: normalize_def recognize_one_def)

section \<open>Dumping a model and validating the dump\<close>

lemma and_then_Inr [simp]: "and_then (Inr x) f = f x"
  by (simp add: and_then_def)

lemma and_then_Inl [simp]: "and_then (Inl e) f = Inl e"
  by (simp add: and_then_def)

lemma and_then_eq_Inr: "and_then r f = Inr y \<longleftrightarrow> (\<exists>x. r = Inr x \<and> f x = Inr y)"
  by (cases r) simp_all

lemma optional_str_json [simp]: "optional_str (Some (str_json x)) = Inr x"
  by (cases x) simp_all

lemma optional_postal_json [simp]: "optional_postal (Some (postal_json x)) = Inr x"
  by (cases x rule: postal_json.cases) simp_all

lemma indicator_field_str [simp]: "indicator_field U (Some (JStr (indicator_str i))) = Inr i"
  by (cases i)
     (simp_all add: indicator_field_def indicator_literal_def Let_def unknown_fixed
        indicator_fixed indicator_values_def)

lemma model_dump_lookup:
  "map_of (model_dump a) ''name'' = Some (str_json (name a))"
  "map_of (model_dump a) ''phone'' = Some (str_json (phone a))"
  "map_of (model_dump a) ''email'' = Some (str_json (email a))"
  "map_of (model_dump a) ''company_name'' = Some (str_json (company_name a))"
  "map_of (model_dump a) ''address_line1'' = Some (JStr (address_line1 a))"
  "map_of (model_dump a) ''address_line2'' = Some (str_json (address_line2 a))"
  "map_of (model_dump a) ''address_line3'' = Some (str_json (address_line3 a))"
  "map_of (model_dump a) ''city_locality'' = Some (JStr (city_locality a))"
  "map_of (model_dump a) ''state_province'' = Some (JStr (state_province a))"
  "map_of (model_dump a) ''postal_code'' = Some (postal_json (postal_code a))"
  "map_of (model_dump a) ''country_code'' = Some (JStr (country_code a))"
  "map_of (model_dump a) ARI = Some (JStr (indicator_str (address_residential_indicator a)))"
  by (simp_all add: model_dump_def ARI_def)

text \<open>
  Validating the dump of a record gives the record back exactly when the record
  satisfies the field constraints; the dump of a record already carries a canonical
  indicator, so lines 103-111 of \<^verbatim>\<open>validate_and_store\<close> leave it as it is.
\<close>

lemma model_validate_dump:
  "AddressIn_model_validate U (JObj (model_dump a)) =
     (if AddressIn_valid a then Inr a else Inl ValidationError)"
  by (simp add: model_dump_lookup AddressIn_valid_def country_code_field_def)

lemma original_for_out_dump: "original_for_out U (model_dump a) = model_dump a"
proof -
  have "lower U (strip (indicator_str i)) = indicator_str i \<and> indicator_str i \<in> indicator_values" for i
    by (cases i) (simp_all add: indicator_fixed indicator_values_def)
  then show ?thesis
    by (simp add: original_for_out_def model_dump_lookup Let_def update_triv)
qed

lemma example_valid: "AddressIn_valid example_address" "AddressIn_valid blank_line_address"
  by (simp_all add: AddressIn_valid_def example_address_def blank_line_address_def)

lemma blank_line_rejected:
  "AddressIn_model_validate U (JObj (normalize U (model_dump blank_line_address))) = Inl ValidationError"
  by (simp add: normalize_def model_dump_def blank_line_address_def example_address_def ARI_def
        indicator_values_def str_eval)

lemma example_matched_accepted:
  "AddressIn_model_validate U (JObj (normalize U (model_dump example_address))) = Inr example_matched"
  by (simp add: normalize_def model_dump_def example_matched_def example_address_def ARI_def
        indicator_values_def indicator_field_def indicator_literal_def country_code_field_def
        str_eval)

lemma example_status_and_messages:
  "status_and_messages U example_address = (result_status example_result, result_messages example_result)"
  by (simp add: status_and_messages_def example_result_def example_address_def str_eval)

lemma recognize_in_dump_rejected:
  "AddressOut_model_validate U (JObj (AddressRecognizeIn_model_dump r)) = Inl ValidationError"
  by (simp add: AddressOut_model_validate_def AddressRecognizeIn_model_dump_def)

section \<open>Synchronous create\<close>

lemma status_and_messages_verified: "fst (status_and_messages U addr) = ''verified''"
  by (simp add: status_and_messages_def Let_def)

lemma fresh_session [simp]:
  "persisted (async_session_factory d) = d"
  "working (async_session_factory d) = d"
  "commits (async_session_factory d) = []"
  by (simp_all add: async_session_factory_def)

lemma rollback_fresh [simp]: "rollback (async_session_factory d) = async_session_factory d"
  by (simp add: rollback_def async_session_factory_def)

text \<open>
  When the loop of \<^verbatim>\<open>validate_and_store\<close> ends without raising, it has appended one
  item per address, in order, and one result per address, in order, whose original
  is the address itself.
\<close>

lemma store_addresses_Inr:
  assumes "store_addresses U bid addresses d results = Inr (d', results')"
  shows "d' = d\<lparr>items := items d @ map (validation_item U bid) addresses\<rparr> \<and>
         (\<exists>new. results' = results @ new \<and>
            map result_original_address new = addresses \<and>
            list_all2 (\<lambda>addr r.
                AddressOut_model_validate U (JObj (normalize U (model_dump addr)))
                  = Inr (result_matched_address r) \<and>
                result_status r = ''verified'' \<and>
                result_messages r = snd (status_and_messages U addr)) addresses new)"
  using assms
proof (induction addresses arbitrary: d results)
  case Nil
  then show ?case by simp
next
  case (Cons addr rest)
  let ?d = "add_item (validation_item U bid addr) d"
  from Cons.prems obtain orig matched where
    o: "AddressOut_model_validate U (JObj (original_for_out U (model_dump addr))) = Inr orig" and
    m: "AddressOut_model_validate U (JObj (normalize U (model_dump addr))) = Inr matched" and
    rest: "store_addresses U bid rest ?d
             (results @ [\<lparr>result_status = fst (status_and_messages U addr),
                           result_original_address = orig,
                           result_matched_address = matched,
                           result_messages = snd (status_and_messages U addr)\<rparr>])
           = Inr (d', results')"
    by (auto simp add: Let_def and_then_eq_Inr split: prod.splits)
  from o have "(if AddressIn_valid addr then Inr addr else Inl ValidationError) = Inr orig"
    by (simp only: original_for_out_dump AddressOut_model_validate_def model_validate_dump)
  then have orig: "orig = addr"
    by (simp split: if_splits)
  from Cons.IH [OF rest] obtain new where
    d': "d' = ?d\<lparr>items := items ?d @ map (validation_item U bid) rest\<rparr>" and
    r': "results' = (results @ [\<lparr>result_status = fst (status_and_messages U addr),
                           result_original_address = orig,
                           result_matched_address = matched,
                           result_messages = snd (status_and_messages U addr)\<rparr>]) @ new" and
    n1: "map result_original_address new = rest" and
    n2: "list_all2 (\<lambda>addr r.
                AddressOut_model_validate U (JObj (normalize U (model_dump addr)))
                  = Inr (result_matched_address r) \<and>
                result_status r = ''verified'' \<and>
                result_messages r = snd (status_and_messages U addr)) rest new"
    by blast
  have "d' = d\<lparr>items := items d @ map (validation_item U bid) (addr # rest)\<rparr>"
    by (simp add: d' add_item_def)
  moreover have "results' = results @ (\<lparr>result_status = fst (status_and_messages U addr),
                           result_original_address = orig,
                           result_matched_address = matched,
                           result_messages = snd (status_and_messages U addr)\<rparr> # new)"
    by (simp add: r')
  ultimately show ?case
    using n1 n2 m orig by (simp add: status_and_messages_verified)
qed

lemma validate_and_store_Inr:
  assumes "validate_and_store U new_id (async_session_factory d) addresses = (Inr (bid, results), s')"
  shows "bid = new_id \<and> batches d new_id = None \<and>
         persisted s' = \<lparr>batches = (batches d)(new_id \<mapsto>
             \<lparr>status = ''completed'',
              request_payload = Some (map (\<lambda>a. JObj (model_dump a)) addresses)\<rparr>),
           items = items d @ map (validation_item U new_id) addresses\<rparr> \<and>
         commits s' = [persisted s'] \<and>
         map result_original_address results = addresses \<and>
         list_all2 (\<lambda>addr r.
                AddressOut_model_validate U (JObj (normalize U (model_dump addr)))
                  = Inr (result_matched_address r) \<and>
                result_status r = ''verified'' \<and>
                result_messages r = snd (status_and_messages U addr)) addresses results"
proof -
  let ?d0 = "d\<lparr>batches := (batches d)(new_id \<mapsto>
       \<lparr>status = ''completed'',
        request_payload = Some (map (\<lambda>a. JObj (model_dump a)) addresses)\<rparr>)\<rparr>"
  from assms have fresh: "batches d new_id = None"
    by (auto simp add: validate_and_store_def session_begin_def async_session_factory_def
        Let_def split: if_splits sum.splits)
  from assms fresh obtain d' where
    st: "store_addresses U new_id addresses ?d0 [] = Inr (d', results)" and
    bid: "bid = new_id" and
    s': "s' = commit ((async_session_factory d)\<lparr>working := d'\<rparr>)"
    by (auto simp add: validate_and_store_def session_begin_def async_session_factory_def
        Let_def and_then_eq_Inr split: if_splits sum.splits prod.splits)
  from store_addresses_Inr [OF st] have
    d': "d' = ?d0\<lparr>items := items ?d0 @ map (validation_item U new_id) addresses\<rparr>" and
    r1: "map result_original_address results = addresses" and
    r2: "list_all2 (\<lambda>addr r.
                AddressOut_model_validate U (JObj (normalize U (model_dump addr)))
                  = Inr (result_matched_address r) \<and>
                result_status r = ''verified'' \<and>
                result_messages r = snd (status_and_messages U addr)) addresses results"
    by auto
  show ?thesis
    using fresh bid r1 r2
    by (simp add: s' d' commit_def async_session_factory_def)
qed

lemma store_blank_line: "store_addresses U bid [blank_line_address] d [] = Inl ValidationError"
  by (simp add: Let_def original_for_out_dump AddressOut_model_validate_def model_validate_dump
      example_valid blank_line_rejected split: prod.splits del: AddressIn_model_validate.simps)

lemma store_example:
  "store_addresses U bid [example_address] d []
     = Inr (add_item (validation_item U bid example_address) d, [example_result])"
  by (simp add: Let_def original_for_out_dump AddressOut_model_validate_def model_validate_dump
      example_valid example_matched_accepted example_status_and_messages example_result_def
      del: AddressIn_model_validate.simps)

lemma validate_and_store_example:
  "validate_and_store U 1 (async_session_factory empty_database) [example_address]
     = (Inr (1, [example_result]), example_session U)"
  by (simp add: validate_and_store_def session_begin_def store_example empty_database_def
      example_session_def example_stored_def commit_def add_item_def async_session_factory_def
      del: store_addresses.simps)

text \<open>
  The other direction: on a fresh key, when every address satisfies the request
  schema and its normalized form still satisfies the response schema, the create
  returns.
\<close>

lemma store_addresses_succeeds:
  assumes "\<And>addr. addr \<in> set addresses \<Longrightarrow> AddressIn_valid addr"
    and "\<And>addr. addr \<in> set addresses \<Longrightarrow>
           \<exists>m. AddressOut_model_validate U (JObj (normalize U (model_dump addr))) = Inr m"
  shows "\<exists>d' results'. store_addresses U bid addresses d results = Inr (d', results')"
  using assms
proof (induction addresses arbitrary: d results)
  case Nil
  then show ?case by simp
next
  case (Cons addr rest)
  from Cons.prems(1) have v: "AddressIn_valid addr" by simp
  from Cons.prems(2) obtain m where
    m: "AddressOut_model_validate U (JObj (normalize U (model_dump addr))) = Inr m" by auto
  have o: "AddressOut_model_validate U (JObj (original_for_out U (model_dump addr))) = Inr addr"
    using v by (simp only: original_for_out_dump AddressOut_model_validate_def model_validate_dump if_True)
  have "\<exists>d' results'. store_addresses U bid rest (add_item (validation_item U bid addr) d)
          (results @ [\<lparr>result_status = fst (status_and_messages U addr),
                        result_original_address = addr, result_matched_address = m,
                        result_messages = snd (status_and_messages U addr)\<rparr>]) = Inr (d', results')"
    by (rule Cons.IH) (simp_all add: Cons.prems)
  then show ?case
    by (simp add: Let_def o m case_prod_beta)
qed

lemma validate_and_store_succeeds:
  assumes "batches d new_id = None"
    and "\<And>addr. addr \<in> set addresses \<Longrightarrow> AddressIn_valid addr"
    and "\<And>addr. addr \<in> set addresses \<Longrightarrow>
           \<exists>m. AddressOut_model_validate U (JObj (normalize U (model_dump addr))) = Inr m"
  shows "\<exists>results s'. validate_and_store U new_id (async_session_factory d) addresses
           = (Inr (new_id, results), s')"
proof -
  from store_addresses_succeeds [OF assms(2,3), of addresses new_id
      "d\<lparr>batches := (batches d)(new_id \<mapsto>
           \<lparr>status = ''completed'',
            request_payload = Some (map (\<lambda>a. JObj (model_dump a)) addresses)\<rparr>)\<rparr>" "[]"]
  obtain d' results where
    "store_addresses U new_id addresses
       (d\<lparr>batches := (batches d)(new_id \<mapsto>
           \<lparr>status = ''completed'',
            request_payload = Some (map (\<lambda>a. JObj (model_dump a)) addresses)\<rparr>)\<rparr>) []
       = Inr (d', results)"
    by auto
  then show ?thesis
    using assms(1)
    by (simp add: validate_and_store_def session_begin_def Let_def del: store_addresses.simps)
qed

text \<open>
  Claim C7, at the failing inputs. An address whose first line is one blank passes
  the request schema (\<^verbatim>\<open>min_length=1\<close>); normalization strips the line to the empty
  string, \<^verbatim>\<open>AddressOut.model_validate(matched_dict)\<close> raises, the unit of work is
  rolled back: no batch, no item, no result. In the recognition pipeline the dump of
  any \<^verbatim>\<open>AddressRecognizeIn\<close> has only the keys \<^verbatim>\<open>text\<close> and \<^verbatim>\<open>address\<close>, so
  \<^verbatim>\<open>AddressOut.model_validate(original)\<close> raises on the first record and nothing is
  committed.
\<close>

theorem sync_create_raises:
  "AddressIn_valid blank_line_address \<and>
   validate_and_store U 1 (async_session_factory empty_database) [blank_line_address]
     = (Inl ValidationError, async_session_factory empty_database) \<and>
   (case recognize_and_store U result_out 1 (async_session_factory empty_database)
           [AddressRecognizeIn_model_dump r] of
      (res, s) \<Rightarrow> res = Inl ValidationError \<and> persisted s = empty_database \<and> commits s = [])"
  by (simp add: example_valid validate_and_store_def session_begin_def store_blank_line
      recognize_and_store_def Let_def recognize_in_dump_rejected empty_database_def
      del: store_addresses.simps)

text \<open>
  The request schema makes the indicator canonical: a raw record with the indicator
  \<^verbatim>\<open>" YES "\<close> parses to an address whose indicator is \<^verbatim>\<open>"yes"\<close>.
\<close>

lemma indicator_canonical_at_parse:
  "map_option address_residential_indicator
     (case AddressIn_model_validate U
             (JObj [(''address_line1'', JStr (ascii ''1 Main St'')), (''city_locality'', JStr (ascii ''anytown'')),
                    (''state_province'', JStr (ascii ''ca'')), (''country_code'', JStr (ascii ''us'')),
                    (ARI, JStr (ascii '' YES ''))]) of
        Inl e \<Rightarrow> None | Inr a \<Rightarrow> Some a) = Some Yes"
  by (simp add: ARI_def indicator_field_def indicator_literal_def indicator_values_def
        country_code_field_def str_eval)

text \<open>
  When \<^verbatim>\<open>validate_and_store\<close> returns, the originals of the results, dumped, are the
  originals stored with the new items, position by position.
\<close>

lemma validate_and_store_originals:
  assumes "validate_and_store U new_id (async_session_factory d) addresses = (Inr (bid, results), s')"
  shows "map (\<lambda>r. model_dump (result_original_address r)) results
           = map original_address (drop (length (items d)) (items (persisted s')))"
proof -
  from validate_and_store_Inr [OF assms] have
    p: "items (persisted s') = items d @ map (validation_item U new_id) addresses" and
    r: "map result_original_address results = addresses"
    by simp_all
  have o: "original_address (validation_item U new_id a) = model_dump a" for a
    by (simp add: validation_item_def Let_def split: prod.splits)
  have "map (\<lambda>r. model_dump (result_original_address r)) results
          = map model_dump (map result_original_address results)"
    by simp
  also have "\<dots> = map original_address (map (validation_item U new_id) addresses)"
    by (simp add: r o)
  finally show ?thesis
    by (simp add: p)
qed

lemma model_dump_indicator_ok: "indicator_ok (model_dump a)"
  by (cases "address_residential_indicator a")
     (simp_all add: indicator_ok_def model_dump_lookup indicator_values_def)

text \<open>
  Claim C9, as amended. Whenever \<^verbatim>\<open>validate_and_store\<close> returns, the original address
  of each result, dumped, is the original address stored with the item of the same
  position; the results' originals are the input records in order, and each carries
  one of the three indicator strings. The indicator was made canonical when the
  request was parsed into \<^verbatim>\<open>AddressIn\<close>, before the service is called.
\<close>

theorem echoed_original_equals_stored:
  assumes "validate_and_store U new_id (async_session_factory d) addresses = (Inr (bid, results), s')"
  shows "map (\<lambda>r. model_dump (result_original_address r)) results
           = map original_address (drop (length (items d)) (items (persisted s'))) \<and>
         map result_original_address results = addresses \<and>
         list_all (\<lambda>r. indicator_ok (model_dump (result_original_address r))) results"
proof -
  from validate_and_store_Inr [OF assms] have
    r: "map result_original_address results = addresses"
    by simp
  have "list_all (\<lambda>r. indicator_ok (model_dump (result_original_address r))) results"
    by (simp add: list_all_iff model_dump_indicator_ok)
  with validate_and_store_originals [OF assms] r show ?thesis by simp
qed

text \<open>
  Witness for C9: the synchronous create of the example address on an empty database.
\<close>

theorem echoed_original_equals_stored_witness:
  "\<forall>U. validate_and_store U 1 (async_session_factory empty_database) [example_address]
     = (Inr (1, [example_result]), example_session U) \<and>
   map (\<lambda>r. model_dump (result_original_address r)) [example_result]
     = map original_address
         (drop (length (items (empty_database :: vdatabase)))
            (items (persisted (example_session U))))"
proof
  fix U
  have v: "validate_and_store U 1 (async_session_factory empty_database) [example_address]
     = (Inr (1, [example_result]), example_session U)"
    by (rule validate_and_store_example)
  from echoed_original_equals_stored [OF v] v
  show "validate_and_store U 1 (async_session_factory empty_database) [example_address]
     = (Inr (1, [example_result]), example_session U) \<and>
   map (\<lambda>r. model_dump (result_original_address r)) [example_result]
     = map original_address
         (drop (length (items (empty_database :: vdatabase)))
            (items (persisted (example_session U))))"
    by blast
qed

text \<open>
  Counterexample to C9 as stated: there is no call of \<^verbatim>\<open>validate_and_store\<close> after
  which an echoed original differs from the stored one.
\<close>

theorem echoed_original_differs_counterexample:
  "\<not> (\<exists>U new_id d addresses bid results s'.
        validate_and_store U new_id (async_session_factory d) addresses = (Inr (bid, results), s') \<and>
        map (\<lambda>r. model_dump (result_original_address r)) results
          \<noteq> map original_address (drop (length (items d)) (items (persisted s'))))"
  using validate_and_store_originals by blast

section \<open>Processing a stored batch\<close>

lemma fold_add_item:
  "fold (\<lambda>x. add_item (f x)) xs d = d\<lparr>items := items d @ map f xs\<rparr>"
  by (induction xs arbitrary: d) (simp_all add: add_item_def)

lemma find_items_of: "find (\<lambda>i. batch_id i = bid) (items d) \<noteq> None \<longleftrightarrow> items_of d bid \<noteq> []"
  by (auto simp add: items_of_def find_None_iff filter_empty_conv)

lemma validation_item_batch_id [simp]: "batch_id (validation_item U bid addr) = bid"
  by (simp add: validation_item_def Let_def split: prod.splits)

lemma recognition_item_batch_id [simp]: "recognition_batch_id (recognition_item U bid x) = bid"
  by (simp add: recognition_item_def Let_def)

lemma payload_of_status [simp]: "payload_of (batch\<lparr>status := st\<rparr>) = payload_of batch"
  by (simp add: payload_of_def)

lemma single_batch_simps [simp]:
  "batches (single_batch st p its) (Suc 0) = Some \<lparr>status = st, request_payload = p\<rparr>"
  "items (single_batch st p its) = its"
  by (simp_all add: single_batch_def)

lemma validate_example_payload:
  "validate_each (AddressIn_model_validate U) [JObj (model_dump example_address)] = Inr [example_address]"
  by (simp add: model_validate_dump example_valid del: AddressIn_model_validate.simps)

lemma validate_recognition_payload:
  "validate_each AddressRecognizeIn_model_validate
     [JObj (AddressRecognizeIn_model_dump example_recognize_in)] = Inr [example_recognize_in]"
  by (simp add: AddressRecognizeIn_model_dump_def example_recognize_in_def)

text \<open>
  The five outcomes of the validation pipeline's \<^verbatim>\<open>process_existing_batch\<close> on a
  fresh session.
\<close>

lemma process_missing:
  assumes "batches d bid = None"
  shows "process_existing_batch U (async_session_factory d) bid
           = (Inr (), \<lparr>persisted = d, working = d, commits = [d]\<rparr>)"
  using assms
  by (simp add: process_existing_batch_def session_begin_def async_session_factory_def commit_def)

lemma process_completed:
  assumes "batches d bid = Some batch" and "status batch = ''completed''"
    and "items_of d bid \<noteq> []"
  shows "process_existing_batch U (async_session_factory d) bid
           = (Inr (), \<lparr>persisted = d, working = d, commits = [d]\<rparr>)"
  using assms find_items_of [of bid d]
  by (simp add: process_existing_batch_def session_begin_def async_session_factory_def
      commit_def Let_def)

lemma process_empty_payload:
  assumes "batches d bid = Some batch"
    and "\<not> (status batch = ''completed'' \<and> items_of d bid \<noteq> [])"
    and "payload_of batch = []"
  shows "process_existing_batch U (async_session_factory d) bid
           = (Inr (), \<lparr>persisted = set_status bid ''failed'' d,
                        working = set_status bid ''failed'' d,
                        commits = [set_status bid ''failed'' d]\<rparr>)"
  using assms find_items_of [of bid d]
  by (auto simp add: process_existing_batch_def session_begin_def async_session_factory_def
      commit_def Let_def)

lemma process_malformed:
  assumes "batches d bid = Some batch"
    and "\<not> (status batch = ''completed'' \<and> items_of d bid \<noteq> [])"
    and "validate_each (AddressIn_model_validate U) (payload_of batch) = Inl e"
  shows "process_existing_batch U (async_session_factory d) bid
           = (Inl e, async_session_factory d)"
proof -
  from assms(3) have "payload_of batch \<noteq> []" by auto
  with assms find_items_of [of bid d] show ?thesis
    by (auto simp add: process_existing_batch_def session_begin_def async_session_factory_def
        rollback_def Let_def)
qed

lemma process_regenerates:
  assumes "batches d bid = Some batch"
    and "\<not> (status batch = ''completed'' \<and> items_of d bid \<noteq> [])"
    and "payload_of batch \<noteq> []"
    and "validate_each (AddressIn_model_validate U) (payload_of batch) = Inr addresses"
  shows "process_existing_batch U (async_session_factory d) bid
           = (Inr (), \<lparr>persisted = processed U bid batch addresses d,
                        working = processed U bid batch addresses d,
                        commits = [processed U bid batch addresses d]\<rparr>)"
  using assms find_items_of [of bid d]
  by (auto simp add: process_existing_batch_def session_begin_def async_session_factory_def
      commit_def Let_def set_status_def delete_items_def fold_add_item processed_def)

text \<open>
  The outcomes of the recognition pipeline's \<^verbatim>\<open>process_existing_batch\<close>.
\<close>

lemma recognition_missing:
  assumes "batches d bid = None"
  shows "recognition_process_existing_batch U (async_session_factory d) bid
           = (Inr (), async_session_factory d)"
  using assms
  by (simp add: recognition_process_existing_batch_def async_session_factory_def)

lemma recognition_in_flight_or_done:
  assumes "batches d bid = Some batch" and "status batch \<in> {''processing'', ''completed''}"
  shows "recognition_process_existing_batch U (async_session_factory d) bid
           = (Inr (), async_session_factory d)"
  using assms
  by (auto simp add: recognition_process_existing_batch_def async_session_factory_def)

lemma recognition_empty_payload:
  assumes "batches d bid = Some batch" and "status batch \<notin> {''processing'', ''completed''}"
    and "payload_of batch = []"
  shows "recognition_process_existing_batch U (async_session_factory d) bid
           = (Inr (), \<lparr>persisted = set_status bid ''failed'' d,
                        working = set_status bid ''failed'' d,
                        commits = [set_status bid ''failed'' d]\<rparr>)"
  using assms
  by (auto simp add: recognition_process_existing_batch_def async_session_factory_def
      commit_def Let_def)

lemma recognition_malformed:
  assumes "batches d bid = Some batch" and "status batch \<notin> {''processing'', ''completed''}"
    and "validate_each AddressRecognizeIn_model_validate (payload_of batch) = Inl e"
  shows "recognition_process_existing_batch U (async_session_factory d) bid
           = (Inl e, \<lparr>persisted = set_status bid ''processing'' d,
                       working = delete_recognition_items bid (set_status bid ''processing'' d),
                       commits = [set_status bid ''processing'' d]\<rparr>)"
proof -
  from assms(3) have "payload_of batch \<noteq> []" by auto
  with assms show ?thesis
    by (auto simp add: recognition_process_existing_batch_def async_session_factory_def
        commit_def Let_def)
qed

lemma recognition_regenerates:
  assumes "batches d bid = Some batch" and "status batch \<notin> {''processing'', ''completed''}"
    and "payload_of batch \<noteq> []"
    and "validate_each AddressRecognizeIn_model_validate (payload_of batch) = Inr addresses"
  shows "recognition_process_existing_batch U (async_session_factory d) bid
           = (Inr (), \<lparr>persisted = recognized_db U bid batch addresses d,
                        working = recognized_db U bid batch addresses d,
                        commits = [set_status bid ''processing'' d,
                                   recognized_db U bid batch addresses d]\<rparr>)"
  using assms
  by (auto simp add: recognition_process_existing_batch_def async_session_factory_def
      commit_def Let_def set_status_def delete_recognition_items_def fold_add_item
      recognized_db_def)

text \<open>
  The guard where it holds: the validation pipeline leaves a completed batch with
  items alone, the recognition pipeline leaves a batch alone that is in flight or
  completed.
\<close>

lemma process_completed_noop:
  assumes "batches d bid = Some batch" and "status batch = ''completed''"
    and "items_of d bid \<noteq> []"
  shows "persisted (snd (process_existing_batch U (async_session_factory d) bid)) = d"
  using assms by (simp add: process_completed)

lemma recognition_process_noop:
  assumes "batches d bid = Some batch"
    and "status batch = ''processing'' \<or> status batch = ''completed''"
  shows "recognition_process_existing_batch U (async_session_factory d) bid
           = (Inr (), async_session_factory d)"
  using assms by (auto simp add: recognition_in_flight_or_done)

text \<open>
  Claim C1, at the failing input. A validation batch stored with status
  \<^verbatim>\<open>processing\<close>, a payload of one record and no items: \<^verbatim>\<open>process_existing_batch\<close>
  of the validation pipeline tests only for \<^verbatim>\<open>completed\<close> with an item, so it
  regenerates the item and completes the batch instead of leaving it alone.
\<close>

theorem process_in_flight_batch_regenerates:
  "(case process_existing_batch U (async_session_factory in_flight_batch) 1 of
      (r, s) \<Rightarrow> r = Inr () \<and>
        map_option status (batches (persisted s) 1) = Some ''completed'' \<and>
        items (persisted s) = [validation_item U 1 example_address]) \<and>
   map_option status (batches in_flight_batch 1) = Some ''processing'' \<and>
   items in_flight_batch = []"
proof -
  have b: "batches in_flight_batch 1
             = Some \<lparr>status = ''processing'',
                     request_payload = Some [JObj (model_dump example_address)]\<rparr>"
    by (simp add: in_flight_batch_def)
  have "process_existing_batch U (async_session_factory in_flight_batch) 1
          = (Inr (), \<lparr>persisted = processed U 1 \<lparr>status = ''processing'',
                          request_payload = Some [JObj (model_dump example_address)]\<rparr>
                          [example_address] in_flight_batch,
                       working = processed U 1 \<lparr>status = ''processing'',
                          request_payload = Some [JObj (model_dump example_address)]\<rparr>
                          [example_address] in_flight_batch,
                       commits = [processed U 1 \<lparr>status = ''processing'',
                          request_payload = Some [JObj (model_dump example_address)]\<rparr>
                          [example_address] in_flight_batch]\<rparr>)"
    by (rule process_regenerates [OF b])
       (simp_all add: payload_of_def validate_example_payload del: validate_each.simps)
  then show ?thesis
    by (simp add: processed_def in_flight_batch_def)
qed

text \<open>
Status changes keep the items and the payload.
\<close>

lemma items_regenerated_set_status:
  "items_regenerated U (set_status bid st d) bid = items_regenerated U d bid"
  by (auto simp add: items_regenerated_def set_status_def items_of_def full_item_set_def
      split: option.splits)

lemma recognition_items_regenerated_set_status:
  "recognition_items_regenerated U (set_status bid st d) bid = recognition_items_regenerated U d bid"
  by (auto simp add: recognition_items_regenerated_def set_status_def recognition_items_of_def
      recognition_full_item_set_def split: option.splits)

lemma items_of_processed:
  "items_of (processed U bid batch addresses d) bid = map (validation_item U bid) addresses"
proof -
  have "filter (\<lambda>i. batch_id i = bid) (map (validation_item U bid) addresses)
          = map (validation_item U bid) addresses"
    by (induction addresses) simp_all
  moreover have "filter (\<lambda>i. batch_id i = bid) (filter (\<lambda>i. batch_id i \<noteq> bid) xs) = []" for xs
    by (induction xs) simp_all
  ultimately show ?thesis by (simp add: items_of_def processed_def)
qed

lemma batches_processed:
  "batches (processed U bid batch addresses d) bid = Some (batch\<lparr>status := ''completed''\<rparr>)"
  by (simp add: processed_def)

lemma items_regenerated_processed:
  assumes "validate_each (AddressIn_model_validate U) (payload_of batch) = Inr addresses"
  shows "items_regenerated U (processed U bid batch addresses d) bid"
  using assms
  by (simp add: items_regenerated_def items_of_processed full_item_set_def batches_processed)

lemma recognition_items_of_recognized:
  "recognition_items_of (recognized_db U bid batch addresses d) bid
     = map (\<lambda>addr. recognition_item U bid (known_values_dict addr)) addresses"
proof -
  have "filter (\<lambda>i. recognition_batch_id i = bid)
          (map (\<lambda>addr. recognition_item U bid (known_values_dict addr)) addresses)
          = map (\<lambda>addr. recognition_item U bid (known_values_dict addr)) addresses"
    by (induction addresses) simp_all
  moreover have "filter (\<lambda>i. recognition_batch_id i = bid)
                   (filter (\<lambda>i. recognition_batch_id i \<noteq> bid) xs) = []" for xs
    by (induction xs) simp_all
  ultimately show ?thesis by (simp add: recognition_items_of_def recognized_db_def)
qed

lemma batches_recognized:
  "batches (recognized_db U bid batch addresses d) bid = Some (batch\<lparr>status := ''completed''\<rparr>)"
  by (simp add: recognized_db_def)

lemma recognition_items_regenerated_recognized:
  assumes "validate_each AddressRecognizeIn_model_validate (payload_of batch) = Inr addresses"
  shows "recognition_items_regenerated U (recognized_db U bid batch addresses d) bid"
  using assms
  by (simp add: recognition_items_regenerated_def recognition_items_of_recognized
      recognition_full_item_set_def batches_recognized)

lemma process_one_unit:
  assumes "items_regenerated U d bid"
  shows "case process_existing_batch U (async_session_factory d) bid of (r, s) \<Rightarrow>
           length (commits s) \<le> 1 \<and> list_all (\<lambda>h. items_regenerated U h bid) (commits s) \<and>
           persisted s = last (d # commits s)"
proof (cases "batches d bid")
  case None
  then show ?thesis using assms by (simp add: process_missing)
next
  case (Some batch)
  show ?thesis
  proof (cases "status batch = ''completed'' \<and> items_of d bid \<noteq> []")
    case True
    then show ?thesis using Some assms by (simp add: process_completed)
  next
    case guard: False
    show ?thesis
    proof (cases "validate_each (AddressIn_model_validate U) (payload_of batch)")
      case (Inl e)
      then show ?thesis
        using Some guard by (simp add: process_malformed)
    next
      case (Inr addresses)
      show ?thesis
      proof (cases "payload_of batch = []")
        case True
        then show ?thesis
          using Some guard assms
          by (simp add: process_empty_payload items_regenerated_set_status)
      next
        case False
        then show ?thesis
          using Some guard Inr
          by (simp add: process_regenerates items_regenerated_processed)
      qed
    qed
  qed
qed

lemma recognition_two_units:
  assumes "recognition_items_regenerated U d bid"
  shows "case recognition_process_existing_batch U (async_session_factory d) bid of (r, s) \<Rightarrow>
           length (commits s) \<le> 2 \<and>
           list_all (\<lambda>h. recognition_items_regenerated U h bid) (commits s) \<and>
           persisted s = last (d # commits s) \<and>
           (length (commits s) = 2 \<longrightarrow> hd (commits s) = set_status bid ''processing'' d)"
proof (cases "batches d bid")
  case None
  then show ?thesis using assms by (simp add: recognition_missing)
next
  case (Some batch)
  show ?thesis
  proof (cases "status batch \<in> {''processing'', ''completed''}")
    case True
    then show ?thesis
      using Some by (simp add: recognition_in_flight_or_done)
  next
    case guard: False
    show ?thesis
    proof (cases "validate_each AddressRecognizeIn_model_validate (payload_of batch)")
      case (Inl e)
      then show ?thesis
        using Some guard assms
        by (simp add: recognition_malformed recognition_items_regenerated_set_status)
    next
      case (Inr addresses)
      show ?thesis
      proof (cases "payload_of batch = []")
        case True
        then show ?thesis
          using Some guard assms
          by (simp add: recognition_empty_payload recognition_items_regenerated_set_status)
      next
        case False
        then show ?thesis
          using Some guard Inr assms
          by (simp add: recognition_regenerates recognition_items_regenerated_recognized
              recognition_items_regenerated_set_status)
      qed
    qed
  qed
qed

text \<open>
  Claim C2, as amended. Starting from a database where the batch's items are
  regenerated (none, or the full set of its payload), every state that
  \<^verbatim>\<open>process_existing_batch\<close> commits has the batch's items regenerated, in both
  pipelines. The validation pipeline commits at most once: status change, deletion
  and insertion are one unit of work. The recognition pipeline commits at most twice;
  when it commits twice, the first commit is the change of status to
  \<^verbatim>\<open>processing\<close> alone, and the deletion, the insertion and the change to
  \<^verbatim>\<open>completed\<close> are the second.
\<close>

theorem regeneration_units_of_work:
  assumes "items_regenerated U d bid" and "recognition_items_regenerated U rd bid"
  shows "(case process_existing_batch U (async_session_factory d) bid of (r, s) \<Rightarrow>
            length (commits s) \<le> 1 \<and> list_all (\<lambda>h. items_regenerated U h bid) (commits s) \<and>
            persisted s = last (d # commits s)) \<and>
         (case recognition_process_existing_batch U (async_session_factory rd) bid of (r, s) \<Rightarrow>
            length (commits s) \<le> 2 \<and>
            list_all (\<lambda>h. recognition_items_regenerated U h bid) (commits s) \<and>
            persisted s = last (rd # commits s) \<and>
            (length (commits s) = 2 \<longrightarrow> hd (commits s) = set_status bid ''processing'' rd))"
  using process_one_unit [OF assms(1)] recognition_two_units [OF assms(2)] by simp

text \<open>
  Witness for C2: a queued batch of one record in each pipeline.
\<close>

theorem regeneration_units_of_work_witness:
  "\<forall>U. length (commits (snd (process_existing_batch U (async_session_factory queued_validation) 1))) \<le> 1 \<and>
   list_all (\<lambda>h. items_regenerated U h 1)
     (commits (snd (process_existing_batch U (async_session_factory queued_validation) 1))) \<and>
   length (commits (snd (recognition_process_existing_batch U
                           (async_session_factory queued_recognition) 1))) \<le> 2 \<and>
   list_all (\<lambda>h. recognition_items_regenerated U h 1)
     (commits (snd (recognition_process_existing_batch U
                      (async_session_factory queued_recognition) 1)))"
proof
  fix U
  have v: "items_regenerated U queued_validation 1"
    by (simp add: items_regenerated_def items_of_def queued_validation_def)
  have r: "recognition_items_regenerated U queued_recognition 1"
    by (simp add: recognition_items_regenerated_def recognition_items_of_def
        queued_recognition_def)
  from regeneration_units_of_work [OF v r]
  show "length (commits (snd (process_existing_batch U (async_session_factory queued_validation) 1))) \<le> 1 \<and>
   list_all (\<lambda>h. items_regenerated U h 1)
     (commits (snd (process_existing_batch U (async_session_factory queued_validation) 1))) \<and>
   length (commits (snd (recognition_process_existing_batch U
                           (async_session_factory queued_recognition) 1))) \<le> 2 \<and>
   list_all (\<lambda>h. recognition_items_regenerated U h 1)
     (commits (snd (recognition_process_existing_batch U
                      (async_session_factory queued_recognition) 1)))"
    by (simp add: case_prod_beta)
qed

text \<open>
  Counterexample to C2 as stated: the recognition pipeline processes a queued batch
  in two units of work. The first committed state shows the batch as
  \<^verbatim>\<open>processing\<close> with no item, the second as \<^verbatim>\<open>completed\<close> with its item.
\<close>

theorem recognition_commits_twice_counterexample:
  "\<forall>U. map (\<lambda>h. (map_option status (batches h 1), length (items h)))
     (commits (snd (recognition_process_existing_batch U
                      (async_session_factory queued_recognition) 1)))
     = [(Some ''processing'', 0), (Some ''completed'', 1)]"
proof
  fix U
  have b: "batches queued_recognition 1
             = Some \<lparr>status = ''queued'',
                     request_payload =
                       Some [JObj (AddressRecognizeIn_model_dump example_recognize_in)]\<rparr>"
    by (simp add: queued_recognition_def)
  have "recognition_process_existing_batch U (async_session_factory queued_recognition) 1
          = (Inr (), \<lparr>persisted = recognized_db U 1 \<lparr>status = ''queued'',
                     request_payload =
                       Some [JObj (AddressRecognizeIn_model_dump example_recognize_in)]\<rparr>
                          [example_recognize_in] queued_recognition,
                       working = recognized_db U 1 \<lparr>status = ''queued'',
                     request_payload =
                       Some [JObj (AddressRecognizeIn_model_dump example_recognize_in)]\<rparr>
                          [example_recognize_in] queued_recognition,
                       commits = [set_status 1 ''processing'' queued_recognition,
                          recognized_db U 1 \<lparr>status = ''queued'',
                     request_payload =
                       Some [JObj (AddressRecognizeIn_model_dump example_recognize_in)]\<rparr>
                          [example_recognize_in] queued_recognition]\<rparr>)"
    by (rule recognition_regenerates [OF b])
       (simp_all add: payload_of_def validate_recognition_payload del: validate_each.simps)
  then show "map (\<lambda>h. (map_option status (batches h 1), length (items h)))
     (commits (snd (recognition_process_existing_batch U
                      (async_session_factory queued_recognition) 1)))
     = [(Some ''processing'', 0), (Some ''completed'', 1)]"
    by (simp add: recognized_db_def queued_recognition_def set_status_def)
qed

text \<open>
  Claim C4, as amended. For a queued batch whose stored payload does not parse, the
  job \<^verbatim>\<open>validate_addresses_batch\<close> ends with the validation error raised by
  \<^verbatim>\<open>AddressIn.model_validate\<close>: nothing catches it, the unit of work is rolled back,
  nothing is committed and the batch stays as it was stored.
\<close>

theorem malformed_payload_raises:
  assumes "UUID batch_id_str = Inr bid" and "batches d bid = Some batch"
    and "status batch = ''queued''"
    and "validate_each (AddressIn_model_validate U) (payload_of batch) = Inl e"
  shows "validate_addresses_batch U UUID d batch_id_str = (Some e, async_session_factory d)"
proof -
  from assms(3) have "\<not> (status batch = ''completed'' \<and> items_of d bid \<noteq> [])" by simp
  from process_malformed [OF assms(2) this assms(4)] assms(1) show ?thesis
    by (simp add: validate_addresses_batch_def)
qed

text \<open>
  Witness for C4: a queued batch whose one record is the empty object.
\<close>

theorem malformed_payload_raises_witness:
  "\<forall>U. validate_addresses_batch U (\<lambda>s. Inr 1) malformed_batch ''1''
     = (Some ValidationError, async_session_factory malformed_batch)"
proof
  fix U
  have b: "batches malformed_batch 1 = Some \<lparr>status = ''queued'', request_payload = Some [JObj []]\<rparr>"
    by (simp add: malformed_batch_def)
  show "validate_addresses_batch U (\<lambda>s. Inr 1) malformed_batch ''1''
     = (Some ValidationError, async_session_factory malformed_batch)"
    by (rule malformed_payload_raises [OF _ b]) (simp_all add: payload_of_def)
qed

text \<open>
  Counterexample to C4 as stated: on that batch the job raises, and the batch is
  still \<^verbatim>\<open>queued\<close>, not \<^verbatim>\<open>failed\<close>.
\<close>

theorem malformed_payload_not_failed_counterexample:
  "\<forall>U. fst (validate_addresses_batch U (\<lambda>s. Inr 1) malformed_batch ''1'') = Some ValidationError \<and>
   map_option status
     (batches (persisted (snd (validate_addresses_batch U (\<lambda>s. Inr 1) malformed_batch ''1''))) 1)
     = Some ''queued''"
proof
  fix U
  have b: "batches malformed_batch 1 = Some \<lparr>status = ''queued'', request_payload = Some [JObj []]\<rparr>"
    by (simp add: malformed_batch_def)
  have "process_existing_batch U (async_session_factory malformed_batch) 1
          = (Inl ValidationError, async_session_factory malformed_batch)"
    by (rule process_malformed [OF b]) (simp_all add: payload_of_def)
  then show "fst (validate_addresses_batch U (\<lambda>s. Inr 1) malformed_batch ''1'') = Some ValidationError \<and>
   map_option status
     (batches (persisted (snd (validate_addresses_batch U (\<lambda>s. Inr 1) malformed_batch ''1''))) 1)
     = Some ''queued''"
    by (simp add: validate_addresses_batch_def malformed_batch_def)
qed

section \<open>Requeue\<close>

lemma requeue_missing:
  assumes "batches d bid = None"
  shows "requeue_batch (async_session_factory d) bid
           = (Inr False, \<lparr>persisted = d, working = d, commits = [d]\<rparr>)"
  using assms
  by (simp add: requeue_batch_def session_begin_def commit_def async_session_factory_def)

lemma requeue_processing:
  assumes "batches d bid = Some batch" and "status batch = ''processing''"
  shows "requeue_batch (async_session_factory d) bid
           = (Inl (RuntimeError ''processing''), async_session_factory d)"
  using assms
  by (simp add: requeue_batch_def session_begin_def)

lemma requeue_empty_payload:
  assumes "batches d bid = Some batch" and "status batch \<noteq> ''processing''"
    and "payload_of batch = []"
  shows "requeue_batch (async_session_factory d) bid
           = (Inr False, \<lparr>persisted = set_status bid ''failed'' d,
                           working = set_status bid ''failed'' d,
                           commits = [set_status bid ''failed'' d]\<rparr>)"
  using assms
  by (simp add: requeue_batch_def session_begin_def commit_def async_session_factory_def)

text \<open>
  Claim C6. For a batch whose status is \<^verbatim>\<open>processing\<close>, \<^verbatim>\<open>requeue_batch\<close> raises
  \<^verbatim>\<open>RuntimeError\<close> and leaves the session as it was: nothing committed, status,
  payload and items unchanged. The endpoint answers 409 and enqueues nothing, where
  it answers 404 for a batch that does not exist.
\<close>

theorem requeue_in_flight_conflict:
  assumes "batches d bid = Some batch" and "status batch = ''processing''"
  shows "requeue_batch (async_session_factory d) bid
           = (Inl (RuntimeError ''processing''), async_session_factory d) \<and>
         requeue_validation_batch (d, queue) bid
           = (HTTPException 409 ''batch is processing'', d, queue) \<and>
         fst (requeue_validation_batch (d\<lparr>batches := (batches d)(bid := None)\<rparr>, queue) bid)
           = HTTPException 404 ''batch_id not found''"
  by (simp add: requeue_processing [OF assms] requeue_validation_batch_def requeue_missing)

text \<open>
  Witness for C6: the in-flight batch of one record.
\<close>

theorem requeue_in_flight_conflict_witness:
  "requeue_batch (async_session_factory in_flight_batch) 1
     = (Inl (RuntimeError ''processing''), async_session_factory in_flight_batch) \<and>
   requeue_validation_batch (in_flight_batch, []) 1
     = (HTTPException 409 ''batch is processing'', in_flight_batch, [])"
proof -
  have b: "batches in_flight_batch 1
             = Some \<lparr>status = ''processing'',
                     request_payload = Some [JObj (model_dump example_address)]\<rparr>"
    by (simp add: in_flight_batch_def)
  from requeue_in_flight_conflict [OF b, of "[]"] show ?thesis by simp
qed

text \<open>
  Claim C10, as amended. \<^verbatim>\<open>requeue_batch\<close> returns false when the batch does not
  exist, and when it exists, is not \<^verbatim>\<open>processing\<close> and has an empty payload, in
  which case its status is set to \<^verbatim>\<open>failed\<close> and committed. The endpoint gives the
  same 404 answer in both cases and enqueues nothing.
\<close>

theorem requeue_false_is_not_found:
  assumes "batches d bid = Some batch" and "status batch \<noteq> ''processing''"
    and "payload_of batch = []" and "batches d0 bid = None"
  shows "fst (requeue_batch (async_session_factory d) bid) = Inr False \<and>
         persisted (snd (requeue_batch (async_session_factory d) bid)) = set_status bid ''failed'' d \<and>
         fst (requeue_batch (async_session_factory d0) bid) = Inr False \<and>
         persisted (snd (requeue_batch (async_session_factory d0) bid)) = d0 \<and>
         requeue_validation_batch (d, queue) bid
           = (HTTPException 404 ''batch_id not found'', set_status bid ''failed'' d, queue) \<and>
         requeue_validation_batch (d0, queue) bid
           = (HTTPException 404 ''batch_id not found'', d0, queue)"
  by (simp add: requeue_empty_payload [OF assms(1-3)] requeue_missing [OF assms(4)]
      requeue_validation_batch_def)

text \<open>
  Witness for C10: a queued batch without payload, and the empty database.
\<close>

theorem requeue_false_is_not_found_witness:
  "requeue_validation_batch (queued_empty, []) 1
     = (HTTPException 404 ''batch_id not found'', set_status 1 ''failed'' queued_empty, []) \<and>
   map_option status (batches (set_status 1 ''failed'' queued_empty) 1) = Some ''failed'' \<and>
   requeue_validation_batch (empty_database, []) 1
     = (HTTPException 404 ''batch_id not found'', empty_database, [])"
proof -
  have b: "batches queued_empty 1 = Some \<lparr>status = ''queued'', request_payload = None\<rparr>"
    by (simp add: queued_empty_def)
  have e: "batches (empty_database :: vdatabase) 1 = None"
    by (simp add: empty_database_def)
  from requeue_false_is_not_found [OF b _ _ e, of "[]"] show ?thesis
    by (simp add: payload_of_def set_status_def queued_empty_def)
qed

text \<open>
  Counterexample to C10 as stated: a batch that exists with an empty payload and
  status \<^verbatim>\<open>processing\<close>. \<^verbatim>\<open>requeue_batch\<close> raises instead of returning false, and
  the endpoint answers 409.
\<close>

theorem requeue_empty_in_flight_counterexample:
  "payload_of (the (batches in_flight_empty 1)) = [] \<and>
   fst (requeue_batch (async_session_factory in_flight_empty) 1) = Inl (RuntimeError ''processing'') \<and>
   requeue_validation_batch (in_flight_empty, []) 1
     = (HTTPException 409 ''batch is processing'', in_flight_empty, [])"
proof -
  have b: "batches in_flight_empty 1 = Some \<lparr>status = ''processing'', request_payload = None\<rparr>"
    by (simp add: in_flight_empty_def)
  have "requeue_batch (async_session_factory in_flight_empty) 1
          = (Inl (RuntimeError ''processing''), async_session_factory in_flight_empty)"
    by (rule requeue_processing [OF b]) simp
  then show ?thesis
    by (simp add: requeue_validation_batch_def in_flight_empty_def payload_of_def)
qed

section \<open>Serial re-delivery\<close>

text \<open>
  A second delivery of the same job after the first has committed, in the validation
  pipeline: the batch is completed and has items, so the call changes nothing, and
  the batch has as many items as its payload has records. This is the serial case
  only; the model has one caller at a time.
\<close>

lemma validate_each_length: "validate_each f xs = Inr ys \<Longrightarrow> length ys = length xs"
  by (induction xs arbitrary: ys) (auto split: sum.splits)

lemma process_redelivered:
  assumes "batches d bid = Some batch"
    and "\<not> (status batch = ''completed'' \<and> items_of d bid \<noteq> [])"
    and "payload_of batch \<noteq> []"
    and "validate_each (AddressIn_model_validate U) (payload_of batch) = Inr addresses"
  shows "process_existing_batch U (async_session_factory (processed U bid batch addresses d)) bid
           = (Inr (), \<lparr>persisted = processed U bid batch addresses d,
                        working = processed U bid batch addresses d,
                        commits = [processed U bid batch addresses d]\<rparr>)"
    and "length (items_of (processed U bid batch addresses d) bid) = length (payload_of batch)"
proof -
  from validate_each_length [OF assms(4)] assms(3) have ne: "addresses \<noteq> []" by auto
  show "process_existing_batch U (async_session_factory (processed U bid batch addresses d)) bid
           = (Inr (), \<lparr>persisted = processed U bid batch addresses d,
                        working = processed U bid batch addresses d,
                        commits = [processed U bid batch addresses d]\<rparr>)"
    by (rule process_completed [OF batches_processed]) (simp_all add: items_of_processed ne)
  show "length (items_of (processed U bid batch addresses d) bid) = length (payload_of batch)"
    by (simp add: items_of_processed validate_each_length [OF assms(4)])
qed

end
